theory Spec2Isabelle
  imports Complex_Main "HOL-Library.AList"
begin

section \<open>Python values, exceptions and dictionaries\<close>

text \<open>
  The values that reach the defaults table of \<^verbatim>\<open>pip/baseparser.py\<close>. Floats (and complex
  numbers) are kept abstract in the type parameter \<open>'f\<close>: the model never computes with
  them, it only stores what the conversion function returns.
\<close>

datatype 'f pyval =
    PNone
  | PBool bool
  | PInt int
  | PFloat 'f
  | PStr string
  | PList "'f pyval list"
  | PTuple "'f pyval list"

text \<open>The \<^verbatim>\<open>type\<close> attribute of an \<^verbatim>\<open>optparse.Option\<close> (\<^verbatim>\<open>Option.TYPES\<close>).\<close>

datatype opt_type = TString | TInt | TLong | TFloat | TComplex | TChoice

text \<open>
  What an \<^verbatim>\<open>OptionValueError\<close> of optparse says: \<^verbatim>\<open>check_choice\<close> reports the value and
  the allowed choices, \<^verbatim>\<open>check_builtin\<close> the type name and the value. The option string is
  kept beside the cause.
\<close>

datatype 'f cause =
    InvalidChoice "'f pyval" "string list"
  | InvalidValue opt_type "'f pyval"

text \<open>
  Exceptions. \<open>ValueError s\<close> carries the offending text. \<open>SystemExit msg n\<close> stands for
  line 138-139 of the source: the message \<open>msg\<close> (the caught \<^verbatim>\<open>OptionValueError\<close>: key and
  cause) has been printed after \<^verbatim>\<open>An error occured during configuration:\<close>, then
  \<^verbatim>\<open>sys.exit(n)\<close> was called.
\<close>

datatype 'f exc =
    ValueError string
  | TypeError
  | AttributeError
  | IndexError
  | OptionValueError string "'f cause"
  | SystemExit "string \<times> 'f cause" nat

text \<open>
  A Python dict is an association list with distinct keys in insertion order:
  \<^verbatim>\<open>d[k] = v\<close> is \<^const>\<open>AList.update\<close> (overwrite in place, or append), \<^verbatim>\<open>d.get(k)\<close> is
  \<^const>\<open>map_of\<close>, \<^verbatim>\<open>d.items()\<close> is the list itself. \<^verbatim>\<open>d.update(e)\<close> stores the items of \<open>e\<close>
  one after the other. Where Python leaves the order of the items open, this is one of the
  orders it allows.
\<close>

type_synonym ('k, 'v) dict = "('k \<times> 'v) list"

definition dict_update :: "('k, 'v) dict \<Rightarrow> ('k \<times> 'v) list \<Rightarrow> ('k, 'v) dict" where
  "dict_update d e = fold (\<lambda>(k, v). AList.update k v) e d"

section \<open>String methods\<close>

text \<open>
  Strings are byte strings. \<^verbatim>\<open>str.lower\<close> maps the ASCII capitals to small letters and
  leaves every other byte alone.
\<close>

definition lower_char :: "char \<Rightarrow> char" where
  "lower_char c =
     (case map_of (zip ''ABCDEFGHIJKLMNOPQRSTUVWXYZ'' ''abcdefghijklmnopqrstuvwxyz'') c of
        Some l \<Rightarrow> l
      | None \<Rightarrow> c)"

definition lower :: "string \<Rightarrow> string" where
  "lower s = map lower_char s"

definition startswith :: "string \<Rightarrow> string \<Rightarrow> bool" where
  "startswith s p = (take (length p) s = p)"

text \<open>
  \<^verbatim>\<open>s.replace(old, new)\<close>: every non-overlapping occurrence of \<open>old\<close>, found from the
  left, is replaced. With an empty \<open>old\<close> Python puts \<open>new\<close> before every character and at
  the end.
\<close>

fun replace_ne :: "string \<Rightarrow> string \<Rightarrow> string \<Rightarrow> string" where
  "replace_ne old new [] = []"
| "replace_ne old new (c # cs) =
     (if old \<noteq> [] \<and> take (length old) (c # cs) = old
      then new @ replace_ne old new (drop (length old) (c # cs))
      else c # replace_ne old new cs)"

definition replace :: "string \<Rightarrow> string \<Rightarrow> string \<Rightarrow> string" where
  "replace s old new =
     (if old = [] then new @ concat (map (\<lambda>c. c # new) s) else replace_ne old new s)"

text \<open>\<^verbatim>\<open>s.split()\<close>: the maximal runs of non-whitespace bytes, in order.\<close>

definition is_space :: "char \<Rightarrow> bool" where
  "is_space c = (c \<in> set [CHR '' '', CHR 0x09, CHR 0x0A, CHR 0x0B, CHR 0x0C, CHR 0x0D])"

fun split_acc :: "string \<Rightarrow> string \<Rightarrow> string list" where
  "split_acc w [] = (if w = [] then [] else [w])"
| "split_acc w (c # cs) =
     (if is_space c then (if w = [] then split_acc [] cs else w # split_acc [] cs)
      else split_acc (w @ [c]) cs)"

definition split :: "string \<Rightarrow> string list" where
  "split s = split_acc [] s"

section \<open>The option descriptor and the parser\<close>

datatype action =
    Store | StoreConst | StoreTrue | StoreFalse | Append | AppendConst
  | Count | Callback | Help | Version

text \<open>
  The attributes of an \<^verbatim>\<open>optparse.Option\<close> that the configuration code reads or writes.
  \<open>default_val = None\<close> is optparse's \<^verbatim>\<open>NO_DEFAULT\<close>; \<open>dest\<close>, \<open>otype\<close>, \<open>nargs\<close> and
  \<open>choices\<close> are \<open>None\<close> where the attribute is \<^verbatim>\<open>None\<close>.
\<close>

record 'f optn =
  short_opts :: "string list"
  long_opts :: "string list"
  action :: action
  otype :: "opt_type option"
  dest :: "string option"
  default_val :: "'f pyval option"
  nargs :: "nat option"
  choices :: "string list option"

text \<open>
  The \<^verbatim>\<open>ConfigOptionParser\<close>. \<open>config\<close> is the \<^verbatim>\<open>RawConfigParser\<close> as the code observes it:
  a section is bound exactly when \<^verbatim>\<open>has_section\<close> holds, to the list \<^verbatim>\<open>items\<close> returns.
  \<open>options\<close> are the option objects in the order of \<^verbatim>\<open>_get_all_options\<close>; an option's
  position is its identity. \<open>defaults\<close> is the \<^verbatim>\<open>defaults\<close> dict, keyed by \<^verbatim>\<open>dest\<close>,
  which may be \<^verbatim>\<open>None\<close>.
\<close>

record 'f parser =
  name :: string
  config :: "(string \<times> (string \<times> string) list) list"
  options :: "'f optn list"
  defaults :: "(string option, 'f pyval) dict"
  process_default_values :: bool

text \<open>
  \<^verbatim>\<open>get_option(opt_str)\<close> is \<^verbatim>\<open>self._short_opt.get(opt_str) or self._long_opt.get(opt_str)\<close>.
  \<^verbatim>\<open>add_option\<close> enters every option string of every option in these two tables and refuses
  a string that is already there, so the tables are read off the option list.
\<close>

primrec lookup_opt ::
  "('f optn \<Rightarrow> string list) \<Rightarrow> string \<Rightarrow> 'f optn list \<Rightarrow> (nat \<times> 'f optn) option" where
  "lookup_opt sel k [] = None"
| "lookup_opt sel k (x # xs) =
     (if k \<in> set (sel x) then Some (0, x)
      else (case lookup_opt sel k xs of None \<Rightarrow> None | Some (i, y) \<Rightarrow> Some (Suc i, y)))"

definition get_option :: "'f optn list \<Rightarrow> string \<Rightarrow> (nat \<times> 'f optn) option" where
  "get_option opts opt_str =
     (case lookup_opt short_opts opt_str opts of
        Some r \<Rightarrow> Some r
      | None \<Rightarrow> lookup_opt long_opts opt_str opts)"

definition get_opt_string :: "'f optn \<Rightarrow> 'f exc + string" where
  "get_opt_string option =
     (case long_opts option of
        l # _ \<Rightarrow> Inr l
      | [] \<Rightarrow> (case short_opts option of s # _ \<Rightarrow> Inr s | [] \<Rightarrow> Inl IndexError))"

section \<open>Value checking (optparse) and truth values (distutils)\<close>

text \<open>\<^verbatim>\<open>distutils.util.strtobool\<close>: the value is lower-cased, then looked up.\<close>

definition strtobool :: "string \<Rightarrow> 'f exc + 'f pyval" where
  "strtobool val =
     (let v = lower val in
      if v \<in> set [''y'', ''yes'', ''t'', ''true'', ''on'', ''1''] then Inr (PInt 1)
      else if v \<in> set [''n'', ''no'', ''f'', ''false'', ''off'', ''0''] then Inr (PInt 0)
      else Inl (ValueError v))"

text \<open>
  \<^verbatim>\<open>check_choice\<close>: \<^verbatim>\<open>value in option.choices\<close>. The choices are strings, so only a string
  can be among them.
\<close>

definition check_choice :: "'f optn \<Rightarrow> string \<Rightarrow> 'f pyval \<Rightarrow> 'f exc + 'f pyval" where
  "check_choice option opt v =
     (case choices option of
        None \<Rightarrow> Inl TypeError
      | Some cs \<Rightarrow>
          if v \<in> set (map PStr cs) then Inr v
          else Inl (OptionValueError opt (InvalidChoice v cs)))"

text \<open>
  \<^verbatim>\<open>check_builtin\<close>: the conversion function of the type (\<^verbatim>\<open>int\<close>, \<^verbatim>\<open>float\<close>, ...) is the
  parameter \<open>cvt\<close>; only its \<^verbatim>\<open>ValueError\<close> is turned into an \<^verbatim>\<open>OptionValueError\<close>.
\<close>

definition check_builtin ::
  "(opt_type \<Rightarrow> 'f pyval \<Rightarrow> 'f exc + 'f pyval) \<Rightarrow> opt_type \<Rightarrow> string \<Rightarrow> 'f pyval
   \<Rightarrow> 'f exc + 'f pyval" where
  "check_builtin cvt t opt v =
     (case cvt t v of
        Inr x \<Rightarrow> Inr x
      | Inl (ValueError _) \<Rightarrow> Inl (OptionValueError opt (InvalidValue t v))
      | Inl e \<Rightarrow> Inl e)"

text \<open>\<^verbatim>\<open>check_value\<close>: types without a checker (no type, \<^verbatim>\<open>string\<close>) pass the value on.\<close>

definition check_value ::
  "(opt_type \<Rightarrow> 'f pyval \<Rightarrow> 'f exc + 'f pyval) \<Rightarrow> 'f optn \<Rightarrow> string \<Rightarrow> 'f pyval
   \<Rightarrow> 'f exc + 'f pyval" where
  "check_value cvt option opt v =
     (case otype option of
        None \<Rightarrow> Inr v
      | Some TString \<Rightarrow> Inr v
      | Some TChoice \<Rightarrow> check_choice option opt v
      | Some t \<Rightarrow> check_builtin cvt t opt v)"

fun check_values ::
  "(opt_type \<Rightarrow> 'f pyval \<Rightarrow> 'f exc + 'f pyval) \<Rightarrow> 'f optn \<Rightarrow> string \<Rightarrow> 'f pyval list
   \<Rightarrow> 'f exc + 'f pyval list" where
  "check_values cvt option opt [] = Inr []"
| "check_values cvt option opt (v # vs) =
     (case check_value cvt option opt v of
        Inl e \<Rightarrow> Inl e
      | Inr x \<Rightarrow> (case check_values cvt option opt vs of Inl e \<Rightarrow> Inl e | Inr xs \<Rightarrow> Inr (x # xs)))"

text \<open>
  \<^verbatim>\<open>convert_value\<close>: \<^verbatim>\<open>None\<close> stays \<^verbatim>\<open>None\<close>; with \<^verbatim>\<open>nargs == 1\<close> the value is checked,
  otherwise the value is iterated and the checked elements form a tuple.
\<close>

definition convert_value ::
  "(opt_type \<Rightarrow> 'f pyval \<Rightarrow> 'f exc + 'f pyval) \<Rightarrow> 'f optn \<Rightarrow> string \<Rightarrow> 'f pyval
   \<Rightarrow> 'f exc + 'f pyval" where
  "convert_value cvt option opt v =
     (if v = PNone then Inr PNone
      else if nargs option = Some 1 then check_value cvt option opt v
      else (case v of
              PList vs \<Rightarrow> map_sum id PTuple (check_values cvt option opt vs)
            | PTuple vs \<Rightarrow> map_sum id PTuple (check_values cvt option opt vs)
            | PStr s \<Rightarrow> map_sum id PTuple (check_values cvt option opt (map (\<lambda>c. PStr [c]) s))
            | _ \<Rightarrow> Inl TypeError))"

section \<open>The configuration sources\<close>

definition normalize_key :: "string \<Rightarrow> string" where
  "normalize_key key =
     (let key = replace key ''_'' ''-'' in
      if \<not> startswith key ''--'' then ''--'' @ key else key)"

definition normalize_keys :: "(string \<times> string) list \<Rightarrow> (string, string) dict" where
  "normalize_keys items = fold (\<lambda>(key, val). AList.update (normalize_key key) val) items []"

definition get_config_section :: "'f parser \<Rightarrow> string \<Rightarrow> (string \<times> string) list" where
  "get_config_section p nm = (case map_of (config p) nm of Some items \<Rightarrow> items | None \<Rightarrow> [])"

definition get_environ_vars :: "(string \<times> string) list \<Rightarrow> string \<Rightarrow> (string \<times> string) list" where
  "get_environ_vars environ prefix =
     map (\<lambda>(key, val). (lower (replace key prefix ''''), val))
       (filter (\<lambda>(key, val). startswith key prefix) environ)"

section \<open>update_defaults\<close>

text \<open>
  Lines 114-119: the config dict. The sections \<^verbatim>\<open>global\<close> and \<^verbatim>\<open>self.name\<close> are merged
  in this order, then the environment variables.
\<close>

definition merged_config :: "(string \<times> string) list \<Rightarrow> 'f parser \<Rightarrow> (string, string) dict" where
  "merged_config environ p =
     (let config =
            fold (\<lambda>section c. dict_update c (normalize_keys (get_config_section p section)))
              [''global'', name p] []
      in dict_update config (normalize_keys (get_environ_vars environ ''PIP_'')))"

text \<open>
  Lines 127-139 for one option and one non-empty value: the option as the body leaves it
  (line 131 assigns \<^verbatim>\<open>nargs\<close>), and either the exception that leaves the body or the value
  for line 140. \<^verbatim>\<open>strtobool\<close> stands before the \<^verbatim>\<open>try\<close>, so its \<^verbatim>\<open>ValueError\<close> is not
  caught; an \<^verbatim>\<open>OptionValueError\<close> of \<^verbatim>\<open>convert_value\<close> is printed and ends in
  \<^verbatim>\<open>sys.exit(3)\<close>.
\<close>

definition coerce ::
  "(opt_type \<Rightarrow> 'f pyval \<Rightarrow> 'f exc + 'f pyval) \<Rightarrow> 'f optn \<Rightarrow> string \<Rightarrow> string
   \<Rightarrow> 'f optn \<times> ('f exc + 'f pyval)" where
  "coerce cvt option key val =
     (let (v1, option1) =
            (if action option = Append then (PList (map PStr (split val)), option)
             else (PStr val, option\<lparr>nargs := Some 1\<rparr>))
      in (option1,
          case (if action option \<in> {StoreTrue, StoreFalse, Count} then strtobool val
                else Inr v1) of
            Inl e \<Rightarrow> Inl e
          | Inr v2 \<Rightarrow>
              (case convert_value cvt option1 key v2 of
                 Inl (OptionValueError k c) \<Rightarrow> Inl (SystemExit (k, c) 3)
               | Inl e \<Rightarrow> Inl e
               | Inr v3 \<Rightarrow> Inr v3)))"

text \<open>
  One turn of the loop of line 121, on the option objects and the \<^verbatim>\<open>defaults\<close> dict that
  was passed in. The third component is the exception that ends the loop, if any.
\<close>

definition update_step ::
  "(opt_type \<Rightarrow> 'f pyval \<Rightarrow> 'f exc + 'f pyval) \<Rightarrow> string \<times> string \<Rightarrow> 'f optn list
   \<Rightarrow> (string option, 'f pyval) dict
   \<Rightarrow> 'f optn list \<times> (string option, 'f pyval) dict \<times> 'f exc option" where
  "update_step cvt kv opts d =
     (case get_option opts (fst kv) of
        None \<Rightarrow> (opts, d, None)
      | Some (i, option) \<Rightarrow>
          if snd kv = [] then (opts, d, None)
          else (case coerce cvt option (fst kv) (snd kv) of
                  (option1, Inl e) \<Rightarrow> (opts[i := option1], d, Some e)
                | (option1, Inr v) \<Rightarrow>
                    (opts[i := option1], AList.update (dest option1) v d, None)))"

fun update_loop ::
  "(opt_type \<Rightarrow> 'f pyval \<Rightarrow> 'f exc + 'f pyval) \<Rightarrow> (string \<times> string) list \<Rightarrow> 'f optn list
   \<Rightarrow> (string option, 'f pyval) dict
   \<Rightarrow> 'f optn list \<times> (string option, 'f pyval) dict \<times> 'f exc option" where
  "update_loop cvt [] opts d = (opts, d, None)"
| "update_loop cvt (kv # rest) opts d =
     (case update_step cvt kv opts d of
        (opts1, d1, Some e) \<Rightarrow> (opts1, d1, Some e)
      | (opts1, d1, None) \<Rightarrow> update_loop cvt rest opts1 d1)"

text \<open>
  \<^verbatim>\<open>update_defaults(self, defaults)\<close> works on the dict it is given and returns it. The
  result is the parser (its options may have a new \<^verbatim>\<open>nargs\<close>), the dict as the call left
  it, and the exception, if one was raised.
\<close>

definition update_defaults ::
  "(opt_type \<Rightarrow> 'f pyval \<Rightarrow> 'f exc + 'f pyval) \<Rightarrow> (string \<times> string) list \<Rightarrow> 'f parser
   \<Rightarrow> (string option, 'f pyval) dict
   \<Rightarrow> 'f parser \<times> (string option, 'f pyval) dict \<times> 'f exc option" where
  "update_defaults cvt environ p d =
     (case update_loop cvt (merged_config environ p) (options p) d of
        (opts1, d1, r) \<Rightarrow> (p\<lparr>options := opts1\<rparr>, d1, r))"

section \<open>get_default_values\<close>

text \<open>
  \<^verbatim>\<open>optparse.Values(defaults)\<close> sets one attribute per item; \<^verbatim>\<open>setattr\<close> refuses a name
  that is not a string.
\<close>

definition Values :: "(string option, 'f pyval) dict \<Rightarrow> 'f exc + (string, 'f pyval) dict" where
  "Values d =
     (if None \<in> set (map fst d) then Inl TypeError
      else Inr (concat (map (\<lambda>(k, v). case k of Some s \<Rightarrow> [(s, v)] | None \<Rightarrow> []) d)))"

text \<open>Lines 175-179: a default that is a string is checked as a command-line value would be.\<close>

fun check_defaults ::
  "(opt_type \<Rightarrow> 'f pyval \<Rightarrow> 'f exc + 'f pyval) \<Rightarrow> 'f optn list
   \<Rightarrow> (string option, 'f pyval) dict \<Rightarrow> 'f exc + (string option, 'f pyval) dict" where
  "check_defaults cvt [] d = Inr d"
| "check_defaults cvt (option # rest) d =
     (case map_of d (dest option) of
        Some (PStr s) \<Rightarrow>
          (case get_opt_string option of
             Inl e \<Rightarrow> Inl e
           | Inr opt_str \<Rightarrow>
               (case check_value cvt option opt_str (PStr s) of
                  Inl e \<Rightarrow> Inl e
                | Inr v \<Rightarrow> check_defaults cvt rest (AList.update (dest option) v d)))
      | _ \<Rightarrow> check_defaults cvt rest d)"

text \<open>
  \<^verbatim>\<open>get_default_values\<close> hands a copy of \<^verbatim>\<open>self.defaults\<close> to \<^verbatim>\<open>update_defaults\<close>, so the
  parser's own \<open>defaults\<close> field is not the dict that is written.
\<close>

definition get_default_values ::
  "(opt_type \<Rightarrow> 'f pyval \<Rightarrow> 'f exc + 'f pyval) \<Rightarrow> (string \<times> string) list \<Rightarrow> 'f parser
   \<Rightarrow> 'f parser \<times> ('f exc + (string, 'f pyval) dict)" where
  "get_default_values cvt environ p =
     (if \<not> process_default_values p then (p, Values (defaults p))
      else (case update_defaults cvt environ p (defaults p) of
              (p1, d1, Some e) \<Rightarrow> (p1, Inl e)
            | (p1, d1, None) \<Rightarrow>
                (case check_defaults cvt (options p1) d1 of
                   Inl e \<Rightarrow> (p1, Inl e)
                 | Inr d2 \<Rightarrow> (p1, Values d2))))"

text \<open>
  \<^verbatim>\<open>UpdatingDefaultsHelpFormatter.expand_default\<close> passes \<^verbatim>\<open>self.parser.defaults\<close> itself:
  here the parser's dict is the one that is written.
\<close>

definition expand_default ::
  "(opt_type \<Rightarrow> 'f pyval \<Rightarrow> 'f exc + 'f pyval) \<Rightarrow> (string \<times> string) list \<Rightarrow> 'f parser
   \<Rightarrow> 'f parser \<times> 'f exc option" where
  "expand_default cvt environ p =
     (case update_defaults cvt environ p (defaults p) of
        (p1, d1, r) \<Rightarrow> (p1\<lparr>defaults := d1\<rparr>, r))"

section \<open>The main parser of pip\<close>

text \<open>
  The last step of \<^verbatim>\<open>add_option\<close>: an option with a \<^verbatim>\<open>dest\<close> gets an entry in the
  \<^verbatim>\<open>defaults\<close> dict, its default or \<^verbatim>\<open>None\<close>.
\<close>

definition add_option_default ::
  "'f optn \<Rightarrow> (string option, 'f pyval) dict \<Rightarrow> (string option, 'f pyval) dict" where
  "add_option_default option d =
     (case dest option of
        None \<Rightarrow> d
      | Some _ \<Rightarrow>
          (case default_val option of
             Some v \<Rightarrow> AList.update (dest option) v d
           | None \<Rightarrow>
               if dest option \<in> set (map fst d) then d
               else AList.update (dest option) PNone d))"

text \<open>
  The options of \<^verbatim>\<open>create_main_parser\<close>, with the attributes the constructor of
  \<^verbatim>\<open>optparse.Option\<close> fills in (action \<^verbatim>\<open>store\<close>, type \<^verbatim>\<open>string\<close> and \<^verbatim>\<open>nargs\<close> 1 where
  nothing is given for a typed action).
\<close>

definition flag :: "string list \<Rightarrow> string list \<Rightarrow> action \<Rightarrow> string \<Rightarrow> 'f pyval option \<Rightarrow> 'f optn" where
  "flag shorts longs act d dflt =
     \<lparr>short_opts = shorts, long_opts = longs, action = act, otype = None, dest = Some d,
      default_val = dflt, nargs = None, choices = None\<rparr>"

definition valued :: "string list \<Rightarrow> opt_type \<Rightarrow> string \<Rightarrow> 'f pyval option \<Rightarrow> 'f optn" where
  "valued longs t d dflt =
     \<lparr>short_opts = [], long_opts = longs, action = Store, otype = Some t, dest = Some d,
      default_val = dflt, nargs = Some 1, choices = None\<rparr>"

definition opt_help :: "'f optn" where
  "opt_help = flag [''-h''] [''--help''] StoreTrue ''help'' None"

definition opt_require_venv :: "'f optn" where
  "opt_require_venv =
     flag [] [''--require-virtualenv'', ''--require-venv''] StoreTrue ''require_venv''
       (Some (PBool False))"

definition opt_verbose :: "'f optn" where
  "opt_verbose = flag [''-v''] [''--verbose''] Count ''verbose'' (Some (PInt 0))"

definition opt_version :: "'f optn" where
  "opt_version = flag [''-V''] [''--version''] StoreTrue ''version'' None"

definition opt_quiet :: "'f optn" where
  "opt_quiet = flag [''-q''] [''--quiet''] Count ''quiet'' (Some (PInt 0))"

definition opt_log :: "'f optn" where
  "opt_log = valued [''--log''] TString ''log'' None"

definition opt_log_explicit_levels :: "'f optn" where
  "opt_log_explicit_levels =
     flag [] [''--log-explicit-levels''] StoreTrue ''log_explicit_levels'' (Some (PBool False))"

definition opt_log_file :: "string \<Rightarrow> 'f optn" where
  "opt_log_file default_log_file =
     valued [''--local-log'', ''--log-file''] TString ''log_file'' (Some (PStr default_log_file))"

definition opt_no_input :: "'f optn" where
  "opt_no_input = flag [] [''--no-input''] StoreTrue ''no_input'' (Some (PBool False))"

definition opt_proxy :: "'f optn" where
  "opt_proxy = valued [''--proxy''] TString ''proxy'' (Some (PStr []))"

definition opt_timeout :: "'f optn" where
  "opt_timeout = valued [''--timeout'', ''--default-timeout''] TFloat ''timeout'' (Some (PInt 15))"

definition opt_default_vcs :: "'f optn" where
  "opt_default_vcs = valued [''--default-vcs''] TString ''default_vcs'' (Some (PStr []))"

definition opt_skip_requirements_regex :: "'f optn" where
  "opt_skip_requirements_regex =
     valued [''--skip-requirements-regex''] TString ''skip_requirements_regex'' (Some (PStr []))"

definition opt_exists_action :: "'f optn" where
  "opt_exists_action =
     \<lparr>short_opts = [], long_opts = [''--exists-action''], action = Append,
      otype = Some TChoice, dest = Some ''exists_action'', default_val = Some (PList []),
      nargs = Some 1, choices = Some [''s'', ''i'', ''w'', ''b'']\<rparr>"

text \<open>
  \<^verbatim>\<open>create_main_parser\<close>. The parsed configuration file and \<^verbatim>\<open>default_log_file\<close> (of
  \<^verbatim>\<open>pip.locations\<close>) are parameters. The defaults are entered in the order of the
  \<^verbatim>\<open>add_option\<close> calls; \<open>options\<close> lists the parser's own options before those of the
  group, as \<^verbatim>\<open>_get_all_options\<close> does.
\<close>

definition create_main_parser ::
  "(string \<times> (string \<times> string) list) list \<Rightarrow> string \<Rightarrow> 'f parser" where
  "create_main_parser cfg default_log_file =
     \<lparr>name = ''global'',
      config = cfg,
      options =
        [opt_require_venv, opt_log_explicit_levels, opt_log_file default_log_file,
         opt_no_input, opt_default_vcs, opt_skip_requirements_regex,
         opt_help, opt_verbose, opt_version, opt_quiet, opt_log, opt_proxy, opt_timeout,
         opt_exists_action],
      defaults =
        fold add_option_default
          [opt_help, opt_require_venv, opt_verbose, opt_version, opt_quiet, opt_log,
           opt_log_explicit_levels, opt_log_file default_log_file, opt_no_input, opt_proxy,
           opt_timeout, opt_default_vcs, opt_skip_requirements_regex, opt_exists_action]
          [],
      process_default_values = True\<rparr>"

text \<open>
  A conversion function for the examples: it agrees with \<^verbatim>\<open>int\<close> and \<^verbatim>\<open>float\<close> of Python
  on strings of decimal digits without a leading zero, and is used on no other value.
\<close>

fun digits_val :: "nat \<Rightarrow> string \<Rightarrow> nat option" where
  "digits_val n [] = Some n"
| "digits_val n (c # cs) =
     (let k = (of_char c :: nat) in
      if 48 \<le> k \<and> k \<le> 57 then digits_val (10 * n + (k - 48)) cs else None)"

definition cvt_digits :: "opt_type \<Rightarrow> rat pyval \<Rightarrow> rat exc + rat pyval" where
  "cvt_digits t v =
     (case v of
        PStr s \<Rightarrow>
          (case (if s = [] \<or> take 1 s = ''0'' then None else digits_val 0 s) of
             None \<Rightarrow> Inl (ValueError s)
           | Some n \<Rightarrow>
               if t = TFloat \<or> t = TComplex then Inr (PFloat (of_nat n)) else Inr (PInt (int n)))
      | _ \<Rightarrow> Inl TypeError)"

section \<open>Notions for the statements and proofs\<close>

text \<open>
  What the configuration code may do to an option object: nothing, or the assignment of
  line 131, which no option with the action \<^verbatim>\<open>append\<close> receives.
\<close>

definition nargs_set :: "'f optn \<Rightarrow> 'f optn \<Rightarrow> bool" where
  "nargs_set option option1 =
     (option1 = option \<or> (action option \<noteq> Append \<and> option1 = option\<lparr>nargs := Some 1\<rparr>))"

text \<open>
  The effect of one item of the config dict on the \<^verbatim>\<open>defaults\<close> dict, read off the
  options as they were before the loop: nothing for an unknown key or an empty value,
  otherwise the \<^verbatim>\<open>dest\<close> that is written and the outcome of the conversion. The loop
  applies these effects in order and stops at the first exception.
\<close>

definition write_of ::
  "(opt_type \<Rightarrow> 'f pyval \<Rightarrow> 'f exc + 'f pyval) \<Rightarrow> 'f optn list \<Rightarrow> string \<times> string
   \<Rightarrow> (string option \<times> ('f exc + 'f pyval)) option" where
  "write_of cvt opts kv =
     (case get_option opts (fst kv) of
        None \<Rightarrow> None
      | Some (i, option) \<Rightarrow>
          if snd kv = [] then None
          else Some (dest option, snd (coerce cvt option (fst kv) (snd kv))))"

fun apply_writes ::
  "(string option \<times> ('f exc + 'f pyval)) option list \<Rightarrow> (string option, 'f pyval) dict
   \<Rightarrow> (string option, 'f pyval) dict \<times> 'f exc option" where
  "apply_writes [] d = (d, None)"
| "apply_writes (None # ws) d = apply_writes ws d"
| "apply_writes (Some (dn, Inl e) # ws) d = (d, Some e)"
| "apply_writes (Some (dn, Inr v) # ws) d = apply_writes ws (AList.update dn v d)"

text \<open>
  The precedence order in the words of the specification, on the raw data. The value a
  source supplies for a key is that of the last of its pairs whose normalized key it is.
  The sources are, from the highest: the environment variables whose name starts with the
  prefix (with the keys line 165 forms), the section of the configuration file named
  after the command, and the section \<^verbatim>\<open>global\<close>.
\<close>

definition source_value :: "(string \<times> string) list \<Rightarrow> string \<Rightarrow> string option" where
  "source_value items k = map_of (rev (map (\<lambda>(key, val). (normalize_key key, val)) items)) k"

definition highest_precedence :: "(string \<times> string) list \<Rightarrow> 'f parser \<Rightarrow> string \<Rightarrow> string option" where
  "highest_precedence environ p k =
     (case source_value
             (map (\<lambda>(key, val). (lower (replace key ''PIP_'' []), val))
                (filter (\<lambda>(key, val). startswith key ''PIP_'') environ)) k of
        Some v \<Rightarrow> Some v
      | None \<Rightarrow>
          (case source_value
                  (case map_of (config p) (name p) of Some items \<Rightarrow> items | None \<Rightarrow> []) k of
             Some v \<Rightarrow> Some v
           | None \<Rightarrow>
               source_value
                 (case map_of (config p) ''global'' of Some items \<Rightarrow> items | None \<Rightarrow> []) k))"

text \<open>
  Parsers for the examples. \<open>install_parser\<close> has the options of the main parser and the
  name of a command, with a configuration file that sets \<^verbatim>\<open>timeout\<close> in both sections,
  \<^verbatim>\<open>proxy\<close> in \<^verbatim>\<open>[global]\<close> only, and holds a key no option answers to. \<open>alias_parser\<close> is
  the main parser with a file that sets \<^verbatim>\<open>timeout\<close> under both of its option strings. \<open>retries_parser\<close> has one option of type \<^verbatim>\<open>int\<close> whose
  default is given as a string.
\<close>

definition install_parser :: "rat parser" where
  "install_parser =
     (create_main_parser
        [(''global'', [(''timeout'', ''20''), (''foo-bar'', ''1''), (''proxy'', ''px'')]),
         (''install'', [(''timeout'', ''30'')])]
        ''pip.log'')\<lparr>name := ''install''\<rparr>"

definition alias_parser :: "rat parser" where
  "alias_parser =
     create_main_parser
       [(''global'', [(''timeout'', ''20''), (''default-timeout'', ''7'')])] ''pip.log''"

definition opt_retries :: "rat optn" where
  "opt_retries = valued [''--retries''] TInt ''retries'' (Some (PStr ''5''))"

definition retries_parser :: "rat parser" where
  "retries_parser =
     \<lparr>name = ''global'', config = [], options = [opt_retries],
      defaults = fold add_option_default [opt_retries] [],
      process_default_values = True\<rparr>"

section \<open>Evaluation of the examples\<close>

lemmas ev = update_defaults_def merged_config_def dict_update_def normalize_keys_def
  normalize_key_def get_config_section_def get_environ_vars_def replace_def startswith_def
  lower_def lower_char_def update_step_def get_option_def coerce_def strtobool_def
  convert_value_def check_value_def check_choice_def check_builtin_def
  create_main_parser_def add_option_default_def flag_def valued_def
  opt_help_def opt_require_venv_def opt_verbose_def opt_version_def opt_quiet_def
  opt_log_def opt_log_explicit_levels_def opt_log_file_def opt_no_input_def opt_proxy_def
  opt_timeout_def opt_default_vcs_def opt_skip_requirements_regex_def opt_exists_action_def
  cvt_digits_def split_def is_space_def Let_def install_parser_def highest_precedence_def
  source_value_def alias_parser_def
  retries_parser_def opt_retries_def get_default_values_def Values_def get_opt_string_def

section \<open>Key normalization\<close>

lemma replace_ne_map: "replace_ne [a] [b] s = map (\<lambda>c. if c = a then b else c) s"
  by (induction s) auto

lemma replace_ne_absent: "a \<notin> set s \<Longrightarrow> replace_ne [a] new s = s"
  by (induction s) auto

lemma normalize_key_idem: "normalize_key (normalize_key k) = normalize_key k"
proof -
  let ?r = "replace_ne ''_'' ''-'' k"
  have nu: "CHR ''_'' \<notin> set ?r" by (auto simp add: replace_ne_map)
  have "normalize_key k = (if startswith ?r ''--'' then ?r else ''--'' @ ?r)"
    by (simp add: normalize_key_def replace_def Let_def)
  moreover have "normalize_key ?r = (if startswith ?r ''--'' then ?r else ''--'' @ ?r)"
    using nu by (simp add: normalize_key_def replace_def Let_def replace_ne_absent)
  moreover have "normalize_key (''--'' @ ?r) = ''--'' @ ?r"
    using nu by (simp add: normalize_key_def replace_def Let_def replace_ne_absent startswith_def)
  ultimately show ?thesis
    by (simp add: normalize_key_def replace_def Let_def replace_ne_absent startswith_def nu)
qed

lemma fold_update_keys_distinct:
  "distinct (map fst d) \<Longrightarrow> distinct (map fst (fold (\<lambda>(k, v). AList.update (f k) v) e d))"
  by (induction e arbitrary: d) (auto simp: distinct_update)

lemma fold_update_keys:
  "fst ` set (fold (\<lambda>(k, v). AList.update (f k) v) e d) = fst ` set d \<union> f ` fst ` set e"
proof (induction e arbitrary: d)
  case Nil then show ?case by simp
next
  case (Cons x e)
  obtain k v where x: "x = (k, v)" by (cases x)
  show ?case using Cons.IH[of "AList.update (f k) v d"] x dom_update[of "f k" v d] by auto
qed

lemma fold_update_same:
  "distinct (map fst e) \<Longrightarrow> (\<forall>k \<in> fst ` set e. f k = k) \<Longrightarrow>
   fold (\<lambda>(k, v). AList.update (f k) v) e d = fold (\<lambda>(k, v). AList.update k v) e d"
  by (induction e arbitrary: d) auto

lemma fold_update_append:
  "distinct (map fst (d @ e)) \<Longrightarrow> fold (\<lambda>(k, v). AList.update k v) e d = d @ e"
proof (induction e arbitrary: d)
  case Nil then show ?case by simp
next
  case (Cons x e)
  obtain k v where x: "x = (k, v)" by (cases x)
  have "AList.update k v d = d @ [(k, v)]" using Cons.prems x
    by (induction d) auto
  then show ?case using Cons.IH[of "d @ [x]"] Cons.prems x by simp
qed

lemma normalize_keys_idem: "normalize_keys (normalize_keys items) = normalize_keys items"
proof -
  let ?n = "normalize_keys items"
  have d: "distinct (map fst ?n)"
    unfolding normalize_keys_def by (rule fold_update_keys_distinct) simp
  have k: "\<forall>k \<in> fst ` set ?n. normalize_key k = k"
    unfolding normalize_keys_def by (auto simp: fold_update_keys normalize_key_idem)
  have "normalize_keys ?n = fold (\<lambda>(k, v). AList.update k v) ?n []"
    unfolding normalize_keys_def[of ?n] using fold_update_same[OF d k] by simp
  also have "\<dots> = ?n" using fold_update_append[of "[]" ?n] d by simp
  finally show ?thesis .
qed

section \<open>The loop of update_defaults\<close>

lemma nargs_set_refl: "nargs_set x x"
  by (simp add: nargs_set_def)

lemma nargs_set_trans: "nargs_set x y \<Longrightarrow> nargs_set y z \<Longrightarrow> nargs_set x z"
  by (auto simp: nargs_set_def)

lemma nargs_set_fields:
  "nargs_set x y \<Longrightarrow>
   short_opts y = short_opts x \<and> long_opts y = long_opts x \<and> action y = action x \<and>
   otype y = otype x \<and> dest y = dest x \<and> default_val y = default_val x \<and>
   choices y = choices x"
  by (auto simp: nargs_set_def)

lemma lookup_opt_Some:
  "lookup_opt sel k opts = Some (i, x) \<Longrightarrow> i < length opts \<and> opts ! i = x \<and> k \<in> set (sel x)"
  by (induction opts arbitrary: i) (auto split: if_splits option.splits)

lemma get_option_Some:
  "get_option opts k = Some (i, x) \<Longrightarrow>
   i < length opts \<and> opts ! i = x \<and> (k \<in> set (short_opts x) \<or> k \<in> set (long_opts x))"
  by (auto simp: get_option_def split: option.splits dest: lookup_opt_Some)

lemma lookup_opt_rel:
  assumes "list_all2 nargs_set opts0 opts"
    and "\<And>x y. nargs_set x y \<Longrightarrow> sel y = sel x"
  shows "rel_option (\<lambda>a b. fst b = fst a \<and> nargs_set (snd a) (snd b))
           (lookup_opt sel k opts0) (lookup_opt sel k opts)"
  using assms(1)
proof (induction rule: list_all2_induct)
  case Nil
  then show ?case by simp
next
  case (Cons x xs y ys)
  have "sel y = sel x" using Cons.hyps(1) assms(2) by blast
  then show ?case using Cons
    by (cases "lookup_opt sel k xs"; cases "lookup_opt sel k ys") auto
qed

lemma get_option_rel:
  assumes "list_all2 nargs_set opts0 opts"
  shows "rel_option (\<lambda>a b. fst b = fst a \<and> nargs_set (snd a) (snd b))
           (get_option opts0 k) (get_option opts k)"
proof -
  have s: "rel_option (\<lambda>a b. fst b = fst a \<and> nargs_set (snd a) (snd b))
           (lookup_opt short_opts k opts0) (lookup_opt short_opts k opts)"
    by (rule lookup_opt_rel[OF assms]) (simp add: nargs_set_fields)
  have l: "rel_option (\<lambda>a b. fst b = fst a \<and> nargs_set (snd a) (snd b))
           (lookup_opt long_opts k opts0) (lookup_opt long_opts k opts)"
    by (rule lookup_opt_rel[OF assms]) (simp add: nargs_set_fields)
  show ?thesis using s l
    by (cases "lookup_opt short_opts k opts0"; cases "lookup_opt short_opts k opts")
       (auto simp: get_option_def)
qed

lemma coerce_fst:
  "fst (coerce cvt x k v) = (if action x = Append then x else x\<lparr>nargs := Some 1\<rparr>)"
  by (simp add: coerce_def)

lemma coerce_nargs_set: "nargs_set x (fst (coerce cvt x k v))"
  by (simp add: coerce_fst nargs_set_def)

lemma coerce_rel:
  assumes "nargs_set x y"
  shows "snd (coerce cvt y k v) = snd (coerce cvt x k v)"
proof (cases "action x = Append")
  case True
  then have "y = x" using assms by (simp add: nargs_set_def)
  then show ?thesis by simp
next
  case False
  then have a: "action y \<noteq> Append" and n: "y\<lparr>nargs := Some 1\<rparr> = x\<lparr>nargs := Some 1\<rparr>"
    and "action y = action x"
    using assms by (auto simp: nargs_set_def)
  then show ?thesis by (simp add: coerce_def Let_def)
qed

lemma update_step_rel:
  assumes "list_all2 nargs_set opts0 opts"
  shows "list_all2 nargs_set opts0 (fst (update_step cvt kv opts d))"
proof (cases "get_option opts (fst kv)")
  case None
  then show ?thesis using assms by (simp add: update_step_def)
next
  case (Some r)
  obtain i y where r: "r = (i, y)" by (cases r)
  have iy: "i < length opts" "opts ! i = y" using get_option_Some Some r by blast+
  have "nargs_set (opts0 ! i) y" using assms iy by (auto simp: list_all2_conv_all_nth)
  then have "nargs_set (opts0 ! i) (fst (coerce cvt y (fst kv) (snd kv)))"
    using coerce_nargs_set nargs_set_trans by blast
  then have "list_all2 nargs_set opts0 (opts[i := fst (coerce cvt y (fst kv) (snd kv))])"
    using assms iy by (auto simp: list_all2_conv_all_nth nth_list_update)
  then show ?thesis using assms Some r
    by (auto simp: update_step_def split: prod.splits sum.splits)
qed

lemma update_step_write:
  assumes "list_all2 nargs_set opts0 opts"
  shows "snd (update_step cvt kv opts d) = apply_writes [write_of cvt opts0 kv] d"
proof -
  have rel: "rel_option (\<lambda>a b. fst b = fst a \<and> nargs_set (snd a) (snd b))
           (get_option opts0 (fst kv)) (get_option opts (fst kv))"
    by (rule get_option_rel[OF assms])
  show ?thesis
  proof (cases "get_option opts (fst kv)")
    case None
    then have "get_option opts0 (fst kv) = None"
      using rel by (cases "get_option opts0 (fst kv)") auto
    then show ?thesis using None by (simp add: update_step_def write_of_def)
  next
    case (Some r)
    obtain i y where r: "r = (i, y)" by (cases r)
    obtain r0 where r0: "get_option opts0 (fst kv) = Some r0"
      and rr: "nargs_set (snd r0) y"
      using rel Some r by (cases "get_option opts0 (fst kv)") auto
    obtain i0 x where x: "r0 = (i0, x)" by (cases r0)
    have c: "snd (coerce cvt y (fst kv) (snd kv)) = snd (coerce cvt x (fst kv) (snd kv))"
      using coerce_rel[of x y] rr x by simp
    have dd: "dest (fst (coerce cvt y (fst kv) (snd kv))) = dest x"
      using rr x by (auto simp: coerce_fst nargs_set_def)
    show ?thesis
    proof (cases "snd kv = []")
      case True
      then show ?thesis using Some r r0 x by (simp add: update_step_def write_of_def)
    next
      case False
      obtain o1 res where p: "coerce cvt y (fst kv) (snd kv) = (o1, res)"
        by (cases "coerce cvt y (fst kv) (snd kv)")
      have res: "snd (coerce cvt x (fst kv) (snd kv)) = res" using c p by simp
      have w: "write_of cvt opts0 kv = Some (dest x, res)"
        using r0 x False res by (simp add: write_of_def)
      have d1: "dest o1 = dest x" using dd p by simp
      show ?thesis
      proof (cases res)
        case (Inl e)
        have "update_step cvt kv opts d = (opts[i := o1], d, Some e)"
          using Some r False p Inl by (simp add: update_step_def)
        then show ?thesis using w Inl by simp
      next
        case (Inr v)
        have "update_step cvt kv opts d = (opts[i := o1], AList.update (dest x) v d, None)"
          using Some r False p Inr d1 by (simp add: update_step_def)
        then show ?thesis using w Inr by simp
      qed
    qed
  qed
qed

lemma update_loop_rel:
  "list_all2 nargs_set opts0 opts \<Longrightarrow> list_all2 nargs_set opts0 (fst (update_loop cvt items opts d))"
proof (induction items arbitrary: opts d)
  case Nil
  then show ?case by simp
next
  case (Cons kv rest)
  have s: "list_all2 nargs_set opts0 (fst (update_step cvt kv opts d))"
    by (rule update_step_rel[OF Cons.prems])
  show ?case
  proof (cases "update_step cvt kv opts d")
    case (fields opts1 d1 r)
    then show ?thesis using s Cons.IH[of opts1 d1] by (cases r) auto
  qed
qed

lemma apply_writes_Cons:
  "apply_writes (w # ws) d =
     (case apply_writes [w] d of (d1, Some e) \<Rightarrow> (d1, Some e) | (d1, None) \<Rightarrow> apply_writes ws d1)"
  by (cases "(w # ws, d)" rule: apply_writes.cases) auto

lemma update_loop_writes:
  "list_all2 nargs_set opts0 opts \<Longrightarrow>
   snd (update_loop cvt items opts d) = apply_writes (map (write_of cvt opts0) items) d"
proof (induction items arbitrary: opts d)
  case Nil
  then show ?case by simp
next
  case (Cons kv rest)
  obtain opts1 d1 r where st: "update_step cvt kv opts d = (opts1, d1, r)"
    by (cases "update_step cvt kv opts d")
  have s: "list_all2 nargs_set opts0 opts1"
    using update_step_rel[OF Cons.prems, of cvt kv d] st by simp
  have w: "apply_writes [write_of cvt opts0 kv] d = (d1, r)"
    using update_step_write[OF Cons.prems, of cvt kv d] st by simp
  have split: "apply_writes (map (write_of cvt opts0) (kv # rest)) d =
      (case r of Some e \<Rightarrow> (d1, Some e)
       | None \<Rightarrow> apply_writes (map (write_of cvt opts0) rest) d1)"
    using apply_writes_Cons[of "write_of cvt opts0 kv" "map (write_of cvt opts0) rest" d] w
    by (cases r) simp_all
  show ?case
  proof (cases r)
    case None
    then show ?thesis using st split Cons.IH[OF s, of d1] by simp
  next
    case (Some e)
    then show ?thesis using st split by simp
  qed
qed

lemma normalize_keys_distinct: "distinct (map fst (normalize_keys items))"
  unfolding normalize_keys_def by (rule fold_update_keys_distinct) simp

lemma map_of_dict_update:
  "distinct (map fst e) \<Longrightarrow> map_of (dict_update d e) = map_of d ++ map_of e"
proof (induction e arbitrary: d)
  case Nil
  then show ?case by (simp add: dict_update_def)
next
  case (Cons x e)
  obtain k v where x: "x = (k, v)" by (cases x)
  have k: "k \<notin> dom (map_of e)" using Cons.prems x by (auto simp: dom_map_of_conv_image_fst)
  have "map_of (dict_update d (x # e)) = map_of (dict_update (AList.update k v d) e)"
    using x by (simp add: dict_update_def)
  also have "\<dots> = map_of (AList.update k v d) ++ map_of e"
    using Cons.IH[of "AList.update k v d"] Cons.prems by simp
  also have "\<dots> = (map_of d)(k \<mapsto> v) ++ map_of e"
    by (simp only: update_conv')
  also have "\<dots> = map_of d ++ map_of (x # e)"
    using k x by (auto simp: fun_eq_iff map_add_def split: option.splits)
  finally show ?case .
qed

lemma dict_update_distinct:
  "distinct (map fst d) \<Longrightarrow> distinct (map fst (dict_update d e))"
  unfolding dict_update_def using fold_update_keys_distinct[of d "\<lambda>k. k" e] by simp

lemma merged_config_distinct: "distinct (map fst (merged_config environ p))"
  by (simp add: merged_config_def Let_def dict_update_distinct)

lemma fold_update_lookup:
  "map_of (fold (\<lambda>(key, val). AList.update (f key) val) items d) =
   map_of d ++ map_of (rev (map (\<lambda>(key, val). (f key, val)) items))"
proof (induction items arbitrary: d)
  case Nil
  then show ?case by simp
next
  case (Cons x items)
  obtain a b where x: "x = (a, b)" by (cases x)
  have "map_of (fold (\<lambda>(key, val). AList.update (f key) val) (x # items) d) =
        map_of (AList.update (f a) b d) ++
          map_of (rev (map (\<lambda>(key, val). (f key, val)) items))"
    using Cons.IH[of "AList.update (f a) b d"] x by simp
  also have "\<dots> = map_of d ++ map_of (rev (map (\<lambda>(key, val). (f key, val)) (x # items)))"
    using x by (auto simp: update_conv' fun_eq_iff map_add_def split: option.splits)
  finally show ?case .
qed

lemma normalize_keys_lookup: "map_of (normalize_keys items) k = source_value items k"
  by (simp add: normalize_keys_def source_value_def fold_update_lookup)

lemma merged_config_lookup:
  "map_of (merged_config environ p) k = highest_precedence environ p k"
  by (simp add: merged_config_def Let_def map_of_dict_update normalize_keys_distinct
      normalize_keys_lookup get_config_section_def get_environ_vars_def
      highest_precedence_def map_add_def split: option.splits)

lemma apply_writes_append:
  "apply_writes (ws1 @ ws2) d =
     (case apply_writes ws1 d of (d1, Some e) \<Rightarrow> (d1, Some e) | (d1, None) \<Rightarrow> apply_writes ws2 d1)"
  by (induction ws1 d rule: apply_writes.induct) auto

lemma apply_writes_frame:
  "\<forall>x. Some (dn, x) \<notin> set ws \<Longrightarrow> map_of (fst (apply_writes ws d)) dn = map_of d dn"
proof (induction ws d rule: apply_writes.induct)
  case (4 dn' v ws d)
  then have "dn' \<noteq> dn" by auto
  then show ?case using 4 by (simp add: update_conv')
qed auto

lemma apply_writes_keys:
  "fst ` set (fst (apply_writes ws d)) \<subseteq> fst ` set d \<union> {dn. \<exists>x. Some (dn, x) \<in> set ws}"
proof (induction ws d rule: apply_writes.induct)
  case (4 dn v ws d)
  then show ?case using dom_update[of dn v d] by auto
qed auto

lemma apply_writes_key:
  assumes "apply_writes ws d = (d1, None)"
    and "ws = ws1 @ Some (dn, x) # ws2"
    and "\<forall>y. Some (dn, y) \<notin> set ws2"
  shows "\<exists>v. x = Inr v \<and> map_of d1 dn = Some v"
proof -
  obtain d2 r where a: "apply_writes ws1 d = (d2, r)" by (cases "apply_writes ws1 d")
  have r: "r = None" using assms(1,2) a by (cases r) (auto simp: apply_writes_append)
  have b: "apply_writes (Some (dn, x) # ws2) d2 = (d1, None)"
    using assms(1,2) a r by (simp add: apply_writes_append)
  show ?thesis
  proof (cases x)
    case (Inl e)
    then show ?thesis using b by simp
  next
    case (Inr v)
    then have "apply_writes ws2 (AList.update dn v d2) = (d1, None)" using b by simp
    then have "map_of d1 dn = map_of (AList.update dn v d2) dn"
      using apply_writes_frame[OF assms(3), of "AList.update dn v d2"] by simp
    then show ?thesis using Inr by (simp add: update_conv')
  qed
qed

lemma write_of_dest:
  "write_of cvt opts kv = Some (dn, x) \<Longrightarrow>
   \<exists>i option. get_option opts (fst kv) = Some (i, option) \<and> dest option = dn \<and> snd kv \<noteq> []
      \<and> x = snd (coerce cvt option (fst kv) (snd kv))"
  by (auto simp: write_of_def split: option.splits if_splits)

lemma update_defaults_fst:
  "options (fst (update_defaults cvt environ p d)) =
     fst (update_loop cvt (merged_config environ p) (options p) d)"
  by (simp add: update_defaults_def case_prod_beta)

lemma update_defaults_snd:
  "snd (update_defaults cvt environ p d) =
     snd (update_loop cvt (merged_config environ p) (options p) d)"
  by (simp add: update_defaults_def case_prod_beta)

lemma update_step_unknown:
  "get_option opts (fst kv) = None \<Longrightarrow> update_step cvt kv opts d = (opts, d, None)"
  by (simp add: update_step_def)

lemma get_option_None_rel:
  assumes "list_all2 nargs_set opts0 opts"
  shows "get_option opts k = None \<longleftrightarrow> get_option opts0 k = None"
  using get_option_rel[OF assms, of k]
  by (cases "get_option opts0 k"; cases "get_option opts k") auto

lemma update_loop_drop_unknown:
  "list_all2 nargs_set opts0 opts \<Longrightarrow> get_option opts0 k = None \<Longrightarrow>
   update_loop cvt items opts d = update_loop cvt (filter (\<lambda>kv. fst kv \<noteq> k) items) opts d"
proof (induction items arbitrary: opts d)
  case Nil
  then show ?case by simp
next
  case (Cons kv rest)
  show ?case
  proof (cases "fst kv = k")
    case True
    then have "get_option opts (fst kv) = None"
      using get_option_None_rel[OF Cons.prems(1)] Cons.prems(2) by simp
    then have "update_step cvt kv opts d = (opts, d, None)" by (rule update_step_unknown)
    then show ?thesis using True Cons.IH[OF Cons.prems] by simp
  next
    case False
    obtain opts1 d1 r where st: "update_step cvt kv opts d = (opts1, d1, r)"
      by (cases "update_step cvt kv opts d")
    have s: "list_all2 nargs_set opts0 opts1"
      using update_step_rel[OF Cons.prems(1), of cvt kv d] st by simp
    show ?thesis using False st Cons.IH[OF s Cons.prems(2), of d1] by (cases r) simp_all
  qed
qed

lemma check_value_rel:
  assumes "nargs_set x y"
  shows "check_value cvt y = check_value cvt x"
proof -
  have f: "otype y = otype x" "choices y = choices x" using nargs_set_fields[OF assms] by simp_all
  have c: "check_choice y = check_choice x" by (simp add: check_choice_def fun_eq_iff f)
  show ?thesis by (simp add: check_value_def fun_eq_iff f c split: option.split opt_type.split)
qed

lemma get_opt_string_rel:
  assumes "nargs_set x y"
  shows "get_opt_string y = get_opt_string x"
proof -
  have f: "short_opts y = short_opts x" "long_opts y = long_opts x"
    using nargs_set_fields[OF assms] by simp_all
  show ?thesis by (simp add: get_opt_string_def f split: list.split)
qed

lemma check_defaults_str:
  assumes "map_of d (dest x) = Some (PStr s)" and "check_defaults cvt (x # opts) d = Inr d2"
  shows "\<exists>opt_str v. get_opt_string x = Inr opt_str \<and>
           check_value cvt x opt_str (PStr s) = Inr v \<and>
           check_defaults cvt opts (AList.update (dest x) v d) = Inr d2"
proof -
  obtain opt_str where o: "get_opt_string x = Inr opt_str"
    using assms by (cases "get_opt_string x") simp_all
  obtain v where v: "check_value cvt x opt_str (PStr s) = Inr v"
    using assms o by (cases "check_value cvt x opt_str (PStr s)") simp_all
  show ?thesis using assms o v by simp
qed

lemma check_defaults_other:
  "\<forall>s. map_of d (dest x) \<noteq> Some (PStr s) \<Longrightarrow>
   check_defaults cvt (x # opts) d = check_defaults cvt opts d"
  by (simp split: option.split pyval.split)

lemma check_defaults_append:
  "check_defaults cvt (xs @ ys) d =
     (case check_defaults cvt xs d of Inl e \<Rightarrow> Inl e | Inr d1 \<Rightarrow> check_defaults cvt ys d1)"
  by (induction xs arbitrary: d) (simp_all split: option.split pyval.split sum.split)

lemma check_defaults_frame:
  "check_defaults cvt opts d = Inr d2 \<Longrightarrow> \<forall>x \<in> set opts. dest x \<noteq> dn \<Longrightarrow>
   map_of d2 dn = map_of d dn"
proof (induction opts arbitrary: d)
  case Nil
  then show ?case by simp
next
  case (Cons x opts)
  have ne: "dest x \<noteq> dn" and rest: "\<forall>x \<in> set opts. dest x \<noteq> dn" using Cons.prems(2) by auto
  show ?case
  proof (cases "\<exists>s. map_of d (dest x) = Some (PStr s)")
    case True
    then obtain s where s: "map_of d (dest x) = Some (PStr s)" by blast
    obtain opt_str v where
      "check_defaults cvt opts (AList.update (dest x) v d) = Inr d2"
      using check_defaults_str[OF s Cons.prems(1)] by blast
    then show ?thesis using Cons.IH[OF _ rest] ne by (simp add: update_conv')
  next
    case False
    then have "check_defaults cvt opts d = Inr d2"
      using Cons.prems(1) check_defaults_other[of d x cvt opts] by simp
    then show ?thesis using Cons.IH[OF _ rest] by simp
  qed
qed

lemma check_defaults_at:
  assumes run: "check_defaults cvt opts d = Inr d2"
    and i: "i < length opts" "dest (opts ! i) = dn"
    and uniq: "\<forall>j < length opts. j \<noteq> i \<longrightarrow> dest (opts ! j) \<noteq> dn"
    and v0: "map_of d dn = Some v0"
  shows "case v0 of
           PStr s \<Rightarrow> (\<exists>opt_str x. get_opt_string (opts ! i) = Inr opt_str \<and>
                       check_value cvt (opts ! i) opt_str (PStr s) = Inr x \<and> map_of d2 dn = Some x)
         | _ \<Rightarrow> map_of d2 dn = Some v0"
proof -
  let ?pre = "take i opts" and ?post = "drop (Suc i) opts"
  have sp: "opts = ?pre @ opts ! i # ?post" using i(1) by (rule id_take_nth_drop)
  have pre: "\<forall>x \<in> set ?pre. dest x \<noteq> dn"
  proof
    fix x assume "x \<in> set ?pre"
    then obtain j where "j < length ?pre" "?pre ! j = x" by (auto simp: in_set_conv_nth)
    then have "j < length opts" "j \<noteq> i" "opts ! j = x" using i(1) by auto
    then show "dest x \<noteq> dn" using uniq by auto
  qed
  have post: "\<forall>x \<in> set ?post. dest x \<noteq> dn"
  proof
    fix x assume "x \<in> set ?post"
    then obtain j where "j < length ?post" "?post ! j = x" by (auto simp: in_set_conv_nth)
    then have "Suc i + j < length opts" "Suc i + j \<noteq> i" "opts ! (Suc i + j) = x"
      using i(1) by auto
    then show "dest x \<noteq> dn" using uniq by blast
  qed
  obtain da where da: "check_defaults cvt ?pre d = Inr da"
    and rest: "check_defaults cvt (opts ! i # ?post) da = Inr d2"
    using run check_defaults_append[of cvt ?pre "opts ! i # ?post" d] sp
    by (cases "check_defaults cvt ?pre d") auto
  have a: "map_of da dn = Some v0" using check_defaults_frame[OF da pre] v0 by simp
  show ?thesis
  proof (cases "\<exists>s. v0 = PStr s")
    case True
    then obtain s where s: "v0 = PStr s" by blast
    have "map_of da (dest (opts ! i)) = Some (PStr s)" using a s i(2) by simp
    from check_defaults_str[OF this rest]
    obtain opt_str x where "get_opt_string (opts ! i) = Inr opt_str"
      "check_value cvt (opts ! i) opt_str (PStr s) = Inr x"
      "check_defaults cvt ?post (AList.update dn x da) = Inr d2"
      using i(2) by auto
    then show ?thesis using check_defaults_frame[OF _ post, of cvt "AList.update dn x da" d2] s
      by (simp add: update_conv')
  next
    case False
    then have "check_defaults cvt ?post da = Inr d2"
      using rest a i(2) check_defaults_other[of da "opts ! i" cvt ?post] by simp
    then have "map_of d2 dn = Some v0" using check_defaults_frame[OF _ post] a by simp
    then show ?thesis using False by (cases v0) auto
  qed
qed

lemma Values_lookup: "Values d = Inr vals \<Longrightarrow> map_of vals dn = map_of d (Some dn)"
proof -
  assume "Values d = Inr vals"
  then have v: "vals = concat (map (\<lambda>(k, v). case k of Some s \<Rightarrow> [(s, v)] | None \<Rightarrow> []) d)"
    by (auto simp: Values_def split: if_splits)
  show ?thesis unfolding v by (induction d) (auto split: option.splits)
qed

section \<open>One key of the config dict\<close>

text \<open>
  The two facts below are about the loop over any list of items with distinct keys, so
  they do not depend on the order in which a dict hands out its items.
\<close>

lemma update_loop_key:
  assumes run: "update_loop cvt items opts d = (opts1, d1, None)"
    and mem: "(k, v) \<in> set items"
    and dist: "distinct (map fst items)"
    and ne: "v \<noteq> []"
    and opt: "get_option opts k = Some (i, option)"
    and others: "\<forall>k' j option'. k' \<in> fst ` set items \<and> k' \<noteq> k \<and>
         get_option opts k' = Some (j, option') \<longrightarrow> dest option' \<noteq> dest option"
  shows "\<exists>x. snd (coerce cvt option k v) = Inr x \<and> map_of d1 (dest option) = Some x"
proof -
  let ?ws = "map (write_of cvt opts) items"
  have rel: "list_all2 nargs_set opts opts"
    by (simp add: list_all2_refl nargs_set_refl)
  have "snd (update_loop cvt items opts d) = apply_writes ?ws d"
    by (rule update_loop_writes[OF rel])
  then have aw: "apply_writes ?ws d = (d1, None)" using run by simp
  obtain xs ys where xy: "items = xs @ (k, v) # ys" using mem by (meson split_list)
  have w: "write_of cvt opts (k, v) = Some (dest option, snd (coerce cvt option k v))"
    using opt ne by (simp add: write_of_def)
  have ws: "?ws = map (write_of cvt opts) xs @
       Some (dest option, snd (coerce cvt option k v)) # map (write_of cvt opts) ys"
    using xy w by simp
  have "\<forall>y. Some (dest option, y) \<notin> set (map (write_of cvt opts) ys)"
  proof (intro allI notI)
    fix y assume "Some (dest option, y) \<in> set (map (write_of cvt opts) ys)"
    then obtain kv where kv: "kv \<in> set ys" "write_of cvt opts kv = Some (dest option, y)"
      by auto
    then obtain j option' where g: "get_option opts (fst kv) = Some (j, option')"
      "dest option' = dest option" using write_of_dest by blast
    have "fst kv \<noteq> k" using dist xy kv(1) by auto
    moreover have "fst kv \<in> fst ` set items" using xy kv(1) by auto
    ultimately show False using others g by blast
  qed
  then show ?thesis using apply_writes_key[OF aw ws] by blast
qed

lemma update_loop_empty:
  assumes run: "update_loop cvt items opts d = (opts1, d1, r)"
    and val: "map_of items k = Some []"
    and dist: "distinct (map fst items)"
    and opt: "get_option opts k = Some (i, option)"
    and others: "\<forall>k' j option'. k' \<in> fst ` set items \<and> k' \<noteq> k \<and>
         get_option opts k' = Some (j, option') \<longrightarrow> dest option' \<noteq> dest option"
  shows "map_of d1 (dest option) = map_of d (dest option)"
proof -
  let ?ws = "map (write_of cvt opts) items"
  have rel: "list_all2 nargs_set opts opts"
    by (simp add: list_all2_refl nargs_set_refl)
  have "snd (update_loop cvt items opts d) = apply_writes ?ws d"
    by (rule update_loop_writes[OF rel])
  then have "apply_writes ?ws d = (d1, r)" using run by simp
  then have aw: "fst (apply_writes ?ws d) = d1" by simp
  have "\<forall>y. Some (dest option, y) \<notin> set ?ws"
  proof (intro allI notI)
    fix y assume "Some (dest option, y) \<in> set ?ws"
    then obtain kv where kv: "kv \<in> set items" "write_of cvt opts kv = Some (dest option, y)"
      by auto
    then obtain j option' where g: "get_option opts (fst kv) = Some (j, option')"
      "dest option' = dest option" "snd kv \<noteq> []" using write_of_dest by blast
    have "map_of items (fst kv) = Some (snd kv)"
      using kv(1) dist map_of_is_SomeI[of items "fst kv" "snd kv"] by simp
    then have "fst kv \<noteq> k" using val g(3) by auto
    moreover have "fst kv \<in> fst ` set items" using kv(1) by auto
    ultimately show False using others g by blast
  qed
  then show ?thesis using apply_writes_frame[of "dest option" ?ws d] aw by simp
qed

section \<open>Empty values and the options that are written\<close>

lemma update_step_empty: "snd kv = [] \<Longrightarrow> update_step cvt kv opts d = (opts, d, None)"
  by (auto simp: update_step_def split: option.splits)

lemma update_loop_drop_empty:
  "\<forall>kv \<in> set items. fst kv = k \<longrightarrow> snd kv = [] \<Longrightarrow>
   update_loop cvt items opts d = update_loop cvt (filter (\<lambda>kv. fst kv \<noteq> k) items) opts d"
proof (induction items arbitrary: opts d)
  case Nil
  then show ?case by simp
next
  case (Cons kv rest)
  have ih: "\<And>opts d. update_loop cvt rest opts d =
      update_loop cvt (filter (\<lambda>kv. fst kv \<noteq> k) rest) opts d"
    using Cons by simp
  show ?case
  proof (cases "fst kv = k")
    case True
    then have "snd kv = []" using Cons.prems by simp
    then have "update_step cvt kv opts d = (opts, d, None)" by (rule update_step_empty)
    then show ?thesis using True ih by simp
  next
    case False
    obtain opts1 d1 r where st: "update_step cvt kv opts d = (opts1, d1, r)"
      by (cases "update_step cvt kv opts d")
    show ?thesis using False st ih by (cases r) simp_all
  qed
qed

lemma update_step_fst:
  "get_option opts (fst kv) = Some (j, y) \<Longrightarrow> snd kv \<noteq> [] \<Longrightarrow>
   fst (update_step cvt kv opts d) = opts[j := fst (coerce cvt y (fst kv) (snd kv))]"
  by (simp add: update_step_def split: prod.split sum.split)

lemma update_step_unreached:
  assumes rel: "list_all2 nargs_set opts0 opts"
    and un: "snd kv \<noteq> [] \<longrightarrow> (\<forall>x. get_option opts0 (fst kv) \<noteq> Some (i, x))"
  shows "fst (update_step cvt kv opts d) ! i = opts ! i"
proof (cases "get_option opts (fst kv)")
  case None
  then show ?thesis by (simp add: update_step_unknown)
next
  case (Some r)
  obtain j y where r: "r = (j, y)" by (cases r)
  show ?thesis
  proof (cases "snd kv = []")
    case True
    then show ?thesis by (simp add: update_step_empty)
  next
    case False
    obtain r0 where r0: "get_option opts0 (fst kv) = Some r0" and j0: "fst r0 = j"
      using get_option_rel[OF rel, of "fst kv"] Some r
      by (cases "get_option opts0 (fst kv)") auto
    have "j \<noteq> i" using un False r0 j0 by (cases r0) auto
    then show ?thesis using update_step_fst[of opts kv j y cvt d] Some r False by simp
  qed
qed

lemma update_loop_unreached:
  assumes "list_all2 nargs_set opts0 opts"
    and "\<forall>kv \<in> set items. snd kv \<noteq> [] \<longrightarrow> (\<forall>x. get_option opts0 (fst kv) \<noteq> Some (i, x))"
  shows "fst (update_loop cvt items opts d) ! i = opts ! i"
  using assms
proof (induction items arbitrary: opts d)
  case Nil
  then show ?case by simp
next
  case (Cons kv rest)
  obtain opts1 d1 r where st: "update_step cvt kv opts d = (opts1, d1, r)"
    by (cases "update_step cvt kv opts d")
  have rel1: "list_all2 nargs_set opts0 opts1"
    using update_step_rel[OF Cons.prems(1), of cvt kv d] st by simp
  have a: "opts1 ! i = opts ! i"
    using update_step_unreached[OF Cons.prems(1), of kv i cvt d] Cons.prems(2) st by simp
  have rest: "\<forall>kv \<in> set rest. snd kv \<noteq> [] \<longrightarrow> (\<forall>x. get_option opts0 (fst kv) \<noteq> Some (i, x))"
    using Cons.prems(2) by simp
  show ?case
  proof (cases r)
    case None
    then show ?thesis using st a Cons.IH[OF rel1 rest, of d1] by simp
  next
    case (Some e)
    then show ?thesis using st a by simp
  qed
qed

lemma nargs_set_of_written:
  "action x \<noteq> Append \<Longrightarrow> nargs_set (x\<lparr>nargs := Some 1\<rparr>) y \<Longrightarrow> y = x\<lparr>nargs := Some 1\<rparr>"
  by (auto simp: nargs_set_def)

lemma update_loop_reached:
  assumes "list_all2 nargs_set opts0 opts"
    and "update_loop cvt items opts d = (opts1, d1, None)"
    and "(k, v) \<in> set items" and "v \<noteq> []"
    and "get_option opts0 k = Some (i, x)" and "action x \<noteq> Append"
  shows "opts1 ! i = x\<lparr>nargs := Some 1\<rparr>"
  using assms(1,2,3)
proof (induction items arbitrary: opts d)
  case Nil
  then show ?case by simp
next
  case (Cons kv rest)
  obtain opts2 d2 r where st: "update_step cvt kv opts d = (opts2, d2, r)"
    by (cases "update_step cvt kv opts d")
  have r: "r = None" using Cons.prems(2) st by (cases r) simp_all
  have run2: "update_loop cvt rest opts2 d2 = (opts1, d1, None)"
    using Cons.prems(2) st r by simp
  have rel2: "list_all2 nargs_set opts0 opts2"
    using update_step_rel[OF Cons.prems(1), of cvt kv d] st by simp
  show ?case
  proof (cases "kv = (k, v)")
    case True
    obtain r1 where r1: "get_option opts (fst kv) = Some r1" and i1: "fst r1 = i"
      and n1: "nargs_set x (snd r1)"
      using get_option_rel[OF Cons.prems(1), of k] assms(5) True
      by (cases "get_option opts k") auto
    obtain y where y: "r1 = (i, y)" using i1 by (cases r1) auto
    have len: "i < length opts" using get_option_Some[of opts "fst kv" i y] r1 y by simp
    have "fst (coerce cvt y k v) = x\<lparr>nargs := Some 1\<rparr>"
      using n1 y assms(6) by (auto simp: coerce_fst nargs_set_def)
    then have "opts2 = opts[i := x\<lparr>nargs := Some 1\<rparr>]"
      using update_step_fst[of opts kv i y cvt d] r1 y True assms(4) st by simp
    then have at: "opts2 ! i = x\<lparr>nargs := Some 1\<rparr>" and len2: "i < length opts2"
      using len by simp_all
    have "list_all2 nargs_set opts2 opts2" by (simp add: list_all2_refl nargs_set_refl)
    then have "list_all2 nargs_set opts2 opts1"
      using update_loop_rel[of opts2 opts2 cvt rest d2] run2 by simp
    then have "nargs_set (opts2 ! i) (opts1 ! i)"
      using len2 by (auto simp: list_all2_conv_all_nth)
    then show ?thesis using at nargs_set_of_written[OF assms(6)] by simp
  next
    case False
    then have "(k, v) \<in> set rest" using Cons.prems(3) by simp
    then show ?thesis using Cons.IH[OF rel2 run2] by simp
  qed
qed

section \<open>The claims\<close>

subsection \<open>C1: precedence of the sources\<close>

text \<open>
  Counterexample to C1: the file sets \<^verbatim>\<open>timeout = 20\<close> and \<^verbatim>\<open>default-timeout = 7\<close> in
  \<^verbatim>\<open>[global]\<close>, the environment has \<^verbatim>\<open>PIP_TIMEOUT=5\<close>. The key \<^verbatim>\<open>--timeout\<close> is supplied by
  the file and by the environment, both with a non-empty value, and the environment wins
  for that key; but \<^verbatim>\<open>--default-timeout\<close> reaches the same option and is stored after it,
  so the resolved value is 7.0, a value of the file.
\<close>

theorem alias_key_overrides_environment:
  "highest_precedence [(''PIP_TIMEOUT'', ''5'')] alias_parser ''--timeout'' = Some ''5'' \<and>
   snd (snd (update_defaults cvt_digits [(''PIP_TIMEOUT'', ''5'')] alias_parser
     (defaults alias_parser))) = None \<and>
   map_of (fst (snd (update_defaults cvt_digits [(''PIP_TIMEOUT'', ''5'')] alias_parser
     (defaults alias_parser)))) (Some ''timeout'') = Some (PFloat 7)"
  by (simp add: ev)

text \<open>
  C1, amended. Among the sources that supply a key, the one of highest precedence
  (environment, then the section of the command, then \<^verbatim>\<open>global\<close>) decides. If its value is
  not empty, no other key of the configuration reaches an option with the same \<^verbatim>\<open>dest\<close>,
  and the run raises nothing, then that value is the one that is converted and stored
  under the option's \<^verbatim>\<open>dest\<close>, whatever the defaults held before.
\<close>

theorem precedence_order:
  assumes run: "update_defaults cvt environ p d = (p1, d1, None)"
    and val: "highest_precedence environ p k = Some v"
    and ne: "v \<noteq> []"
    and opt: "get_option (options p) k = Some (i, option)"
    and others: "\<forall>k' j option'. k' \<in> fst ` set (merged_config environ p) \<and> k' \<noteq> k \<and>
         get_option (options p) k' = Some (j, option') \<longrightarrow> dest option' \<noteq> dest option"
  shows "\<exists>x. snd (coerce cvt option k v) = Inr x \<and> map_of d1 (dest option) = Some x"
proof -
  let ?items = "merged_config environ p"
  have loop: "update_loop cvt ?items (options p) d = (options p1, d1, None)"
    using run by (auto simp: update_defaults_def split: prod.splits)
  have mem: "(k, v) \<in> set ?items"
    using val by (simp add: merged_config_lookup[symmetric] map_of_SomeD)
  show ?thesis
    by (rule update_loop_key[OF loop mem merged_config_distinct ne opt others])
qed

text \<open>
  Witness for C1, on the \<^verbatim>\<open>install\<close> command with \<^verbatim>\<open>timeout = 20\<close> and \<^verbatim>\<open>proxy = px\<close> in
  \<^verbatim>\<open>[global]\<close> and \<^verbatim>\<open>timeout = 30\<close> in \<^verbatim>\<open>[install]\<close>: with \<^verbatim>\<open>PIP_TIMEOUT=5\<close> the environment
  wins; without it the section of the command wins for \<^verbatim>\<open>timeout\<close>, and \<^verbatim>\<open>[global]\<close> wins
  over the default for \<^verbatim>\<open>proxy\<close>.
\<close>

theorem precedence_order_witness:
  "highest_precedence [(''PIP_TIMEOUT'', ''5''), (''PIP_NO_INPUT'', ''yes'')] install_parser
     ''--timeout'' = Some ''5'' \<and>
   map_of (fst (snd (update_defaults cvt_digits
     [(''PIP_TIMEOUT'', ''5''), (''PIP_NO_INPUT'', ''yes'')]
     install_parser (defaults install_parser)))) (Some ''timeout'') = Some (PFloat 5) \<and>
   highest_precedence [] install_parser ''--timeout'' = Some ''30'' \<and>
   map_of (fst (snd (update_defaults cvt_digits [] install_parser (defaults install_parser))))
     (Some ''timeout'') = Some (PFloat 30) \<and>
   highest_precedence [] install_parser ''--proxy'' = Some ''px'' \<and>
   map_of (fst (snd (update_defaults cvt_digits [] install_parser (defaults install_parser))))
     (Some ''proxy'') = Some (PStr ''px'')"
proof -
  let ?env = "[(''PIP_TIMEOUT'', ''5''), (''PIP_NO_INPUT'', ''yes'')]"
  let ?r = "update_defaults cvt_digits ?env install_parser (defaults install_parser)"
  let ?s = "update_defaults cvt_digits [] install_parser (defaults install_parser)"
  have dt: "dest (opt_timeout :: rat optn) = Some ''timeout''"
    and dp: "dest (opt_proxy :: rat optn) = Some ''proxy''"
    by (simp_all add: ev)
  obtain i where ot: "get_option (options install_parser) ''--timeout'' = Some (i, opt_timeout)"
    by (simp add: ev)
  obtain j where op: "get_option (options install_parser) ''--proxy'' = Some (j, opt_proxy)"
    by (simp add: ev)
  have hp1: "highest_precedence ?env install_parser ''--timeout'' = Some ''5''"
    by (simp add: ev)
  have "snd (snd ?r) = None" by (simp add: ev)
  then have run1: "?r = (fst ?r, fst (snd ?r), None)" by (metis prod.collapse)
  have others1: "\<forall>k' j option'. k' \<in> fst ` set (merged_config ?env install_parser) \<and>
         k' \<noteq> ''--timeout'' \<and> get_option (options install_parser) k' = Some (j, option')
         \<longrightarrow> dest option' \<noteq> dest (opt_timeout :: rat optn)"
    by (auto simp: ev)
  have "\<exists>x. snd (coerce cvt_digits opt_timeout ''--timeout'' ''5'') = Inr x \<and>
          map_of (fst (snd ?r)) (dest (opt_timeout :: rat optn)) = Some x"
    by (rule precedence_order[OF run1 hp1 _ ot others1]) simp
  moreover have "snd (coerce cvt_digits opt_timeout ''--timeout'' ''5'') = Inr (PFloat 5)"
    by (simp add: ev)
  ultimately have a: "map_of (fst (snd ?r)) (Some ''timeout'') = Some (PFloat 5)"
    using dt by auto
  have hp2: "highest_precedence [] install_parser ''--timeout'' = Some ''30''"
    by (simp add: ev)
  have "snd (snd ?s) = None" by (simp add: ev)
  then have run2: "?s = (fst ?s, fst (snd ?s), None)" by (metis prod.collapse)
  have others2: "\<forall>k' j option'. k' \<in> fst ` set (merged_config [] install_parser) \<and>
         k' \<noteq> ''--timeout'' \<and> get_option (options install_parser) k' = Some (j, option')
         \<longrightarrow> dest option' \<noteq> dest (opt_timeout :: rat optn)"
    by (auto simp: ev)
  have "\<exists>x. snd (coerce cvt_digits opt_timeout ''--timeout'' ''30'') = Inr x \<and>
          map_of (fst (snd ?s)) (dest (opt_timeout :: rat optn)) = Some x"
    by (rule precedence_order[OF run2 hp2 _ ot others2]) simp
  moreover have "snd (coerce cvt_digits opt_timeout ''--timeout'' ''30'') = Inr (PFloat 30)"
    by (simp add: ev)
  ultimately have b: "map_of (fst (snd ?s)) (Some ''timeout'') = Some (PFloat 30)"
    using dt by auto
  have hp3: "highest_precedence [] install_parser ''--proxy'' = Some ''px''"
    by (simp add: ev)
  have others3: "\<forall>k' j option'. k' \<in> fst ` set (merged_config [] install_parser) \<and>
         k' \<noteq> ''--proxy'' \<and> get_option (options install_parser) k' = Some (j, option')
         \<longrightarrow> dest option' \<noteq> dest (opt_proxy :: rat optn)"
    by (auto simp: ev)
  have "\<exists>x. snd (coerce cvt_digits opt_proxy ''--proxy'' ''px'') = Inr x \<and>
          map_of (fst (snd ?s)) (dest (opt_proxy :: rat optn)) = Some x"
    by (rule precedence_order[OF run2 hp3 _ op others3]) simp
  moreover have "snd (coerce cvt_digits opt_proxy ''--proxy'' ''px'') = Inr (PStr ''px'')"
    by (simp add: ev)
  ultimately have c: "map_of (fst (snd ?s)) (Some ''proxy'') = Some (PStr ''px'')"
    using dp by auto
  show ?thesis using hp1 a hp2 b hp3 c by simp
qed

text \<open>
  An empty value of the environment is not passed over in favour of the file: the key is
  skipped and the default stays, though two sections supply a non-empty value.
\<close>

lemma empty_environment_value_hides_file:
  "map_of (fst (snd (update_defaults cvt_digits [(''PIP_TIMEOUT'', [])] install_parser
     (defaults install_parser)))) (Some ''timeout'') = Some (PInt 15)"
  by (simp add: ev)

subsection \<open>C2: options that no source mentions\<close>

text \<open>
  Counterexample to C2: an option \<^verbatim>\<open>--retries\<close> of type \<^verbatim>\<open>int\<close> with the default \<^verbatim>\<open>'5'\<close>
  (a string), no configuration file and an empty environment. The resolved value is the
  integer 5, not the string the option was declared with.
\<close>

theorem string_default_converted:
  "default_val opt_retries = Some (PStr ''5'') \<and>
   snd (get_default_values cvt_digits [] retries_parser) = Inr [(''retries'', PInt 5)]"
  by (simp add: ev)

text \<open>
  C2, amended. With \<^verbatim>\<open>process_default_values\<close> set, let an option be the only one with its
  \<^verbatim>\<open>dest\<close>, let none of its option strings be a key of the configuration, and let the
  parser's \<^verbatim>\<open>defaults\<close> hold its hard-coded default. If \<^verbatim>\<open>get_default_values\<close> returns, the
  result binds the \<^verbatim>\<open>dest\<close> to that default when it is not a string, and to the outcome of
  \<^verbatim>\<open>check_value\<close> on it when it is a string.
\<close>

theorem unmentioned_option_default:
  assumes run: "get_default_values cvt environ p = (p1, Inr vals)"
    and proc: "process_default_values p"
    and i: "i < length (options p)" "options p ! i = option" "dest option = Some dn"
    and uniq: "\<forall>j < length (options p). j \<noteq> i \<longrightarrow> dest (options p ! j) \<noteq> Some dn"
    and unmentioned: "\<forall>k \<in> fst ` set (merged_config environ p).
         k \<notin> set (short_opts option) \<union> set (long_opts option)"
    and v0: "v0 = (case default_val option of Some v \<Rightarrow> v | None \<Rightarrow> PNone)"
    and dflt: "map_of (defaults p) (Some dn) = Some v0"
  shows "case v0 of
           PStr s \<Rightarrow> (\<exists>opt_str x. get_opt_string option = Inr opt_str \<and>
                       check_value cvt option opt_str (PStr s) = Inr x \<and> map_of vals dn = Some x)
         | _ \<Rightarrow> map_of vals dn = Some v0"
proof -
  let ?items = "merged_config environ p"
  let ?ws = "map (write_of cvt (options p)) ?items"
  obtain pa d1 r where ud: "update_defaults cvt environ p (defaults p) = (pa, d1, r)"
    by (cases "update_defaults cvt environ p (defaults p)")
  have r: "r = None" using run proc ud by (cases r) (simp_all add: get_default_values_def)
  obtain d2 where cd: "check_defaults cvt (options pa) d1 = Inr d2"
    and vals: "Values d2 = Inr vals"
    using run proc ud r
    by (cases "check_defaults cvt (options pa) d1") (simp_all add: get_default_values_def)
  have rel0: "list_all2 nargs_set (options p) (options p)"
    by (simp add: list_all2_refl nargs_set_refl)
  have rel: "list_all2 nargs_set (options p) (options pa)"
    using update_loop_rel[OF rel0, of cvt ?items "defaults p"] update_defaults_fst[of cvt environ p "defaults p"] ud
    by simp
  have "snd (update_loop cvt ?items (options p) (defaults p)) = apply_writes ?ws (defaults p)"
    by (rule update_loop_writes[OF rel0])
  then have "apply_writes ?ws (defaults p) = snd (update_defaults cvt environ p (defaults p))"
    by (simp only: update_defaults_snd)
  then have aw: "fst (apply_writes ?ws (defaults p)) = d1"
    by (simp only: ud snd_conv fst_conv)
  have nowrite: "\<forall>y. Some (Some dn, y) \<notin> set ?ws"
  proof (intro allI notI)
    fix y assume "Some (Some dn, y) \<in> set ?ws"
    then obtain kv where kv: "kv \<in> set ?items" "Some (Some dn, y) = write_of cvt (options p) kv"
      by auto
    then have "write_of cvt (options p) kv = Some (Some dn, y)" by simp
    then obtain j option' where g: "get_option (options p) (fst kv) = Some (j, option')"
      "dest option' = Some dn" using write_of_dest by blast
    have j: "j < length (options p)" "options p ! j = option'"
      "fst kv \<in> set (short_opts option') \<or> fst kv \<in> set (long_opts option')"
      using get_option_Some[OF g(1)] by simp_all
    have "j = i" using uniq j(1,2) g(2) by auto
    then have "option' = option" using j(2) i(2) by simp
    moreover have "fst kv \<in> fst ` set ?items" using kv(1) by auto
    ultimately show False using unmentioned j(3) by auto
  qed
  have d1: "map_of d1 (Some dn) = Some v0"
    using apply_writes_frame[OF nowrite, of "defaults p"] aw dflt by simp
  have len: "length (options pa) = length (options p)"
    using rel by (simp add: list_all2_lengthD)
  have ri: "nargs_set option (options pa ! i)"
    using rel i(1,2) by (auto simp: list_all2_conv_all_nth)
  have ia: "i < length (options pa)" using i(1) len by simp
  have da: "dest (options pa ! i) = Some dn" using nargs_set_fields[OF ri] i(3) by simp
  have ua: "\<forall>j < length (options pa). j \<noteq> i \<longrightarrow> dest (options pa ! j) \<noteq> Some dn"
  proof (intro allI impI)
    fix j assume j: "j < length (options pa)" "j \<noteq> i"
    then have "nargs_set (options p ! j) (options pa ! j)"
      using rel by (auto simp: list_all2_conv_all_nth)
    then have "dest (options pa ! j) = dest (options p ! j)" using nargs_set_fields by blast
    then show "dest (options pa ! j) \<noteq> Some dn" using uniq j len by simp
  qed
  have at: "case v0 of
           PStr s \<Rightarrow> (\<exists>opt_str x. get_opt_string (options pa ! i) = Inr opt_str \<and>
                       check_value cvt (options pa ! i) opt_str (PStr s) = Inr x \<and>
                       map_of d2 (Some dn) = Some x)
         | _ \<Rightarrow> map_of d2 (Some dn) = Some v0"
    by (rule check_defaults_at[OF cd ia da ua d1])
  have v: "map_of vals dn = map_of d2 (Some dn)" by (rule Values_lookup[OF vals])
  show ?thesis using at
    by (cases v0) (simp_all add: v check_value_rel[OF ri] get_opt_string_rel[OF ri])
qed

text \<open>
  Witness for C2: \<^verbatim>\<open>--local-log\<close> of the \<^verbatim>\<open>install\<close> parser, whose default is a string and
  whose type is \<^verbatim>\<open>string\<close>; the resolved value is the default.
\<close>

theorem unmentioned_option_default_witness:
  "process_default_values install_parser \<and>
   (\<exists>vals. snd (get_default_values cvt_digits [] install_parser) = Inr vals \<and>
      map_of vals ''log_file'' = Some (PStr ''pip.log''))"
proof -
  let ?r = "get_default_values cvt_digits [] install_parser"
  let ?o = "opt_log_file ''pip.log'' :: rat optn"
  have proc: "process_default_values install_parser" by (simp add: ev)
  obtain vals where vals: "snd ?r = Inr vals" by (simp add: ev)
  then have run: "?r = (fst ?r, Inr vals)" by (metis prod.collapse)
  have i: "2 < length (options install_parser)" "options install_parser ! 2 = ?o"
    "dest ?o = Some ''log_file''"
    by (simp_all add: ev)
  have uniq: "\<forall>j < length (options install_parser). j \<noteq> 2 \<longrightarrow>
      dest (options install_parser ! j) \<noteq> Some ''log_file''"
    by (simp add: ev All_less_Suc)
  have unm: "\<forall>k \<in> fst ` set (merged_config [] install_parser).
      k \<notin> set (short_opts ?o) \<union> set (long_opts ?o)"
    by (simp add: ev)
  have v0: "PStr ''pip.log'' = (case default_val ?o of Some v \<Rightarrow> v | None \<Rightarrow> PNone)"
    by (simp add: ev)
  have dflt: "map_of (defaults install_parser) (Some ''log_file'') = Some (PStr ''pip.log'')"
    by (simp add: ev)
  have "case PStr ''pip.log'' :: rat pyval of
           PStr s \<Rightarrow> (\<exists>opt_str x. get_opt_string ?o = Inr opt_str \<and>
                       check_value cvt_digits ?o opt_str (PStr s) = Inr x \<and>
                       map_of vals ''log_file'' = Some x)
         | _ \<Rightarrow> map_of vals ''log_file'' = Some (PStr ''pip.log'')"
    by (rule unmentioned_option_default[OF run proc i uniq unm v0 dflt])
  then have "map_of vals ''log_file'' = Some (PStr ''pip.log'')"
    by (auto simp: ev)
  then show ?thesis using proc vals by blast
qed

subsection \<open>C3: unknown keys\<close>

text \<open>
  C3. A key that no option answers to is ignored: its turn of the loop changes neither the
  options nor the mapping and raises nothing, the whole of \<^verbatim>\<open>update_defaults\<close> does what it
  does on the configuration without that key, and every key of the resulting mapping was
  in the mapping before or is the \<^verbatim>\<open>dest\<close> of an option.
\<close>

theorem unknown_key_ignored:
  assumes "get_option (options p) k = None"
  shows "update_step cvt (k, v) (options p) d = (options p, d, None) \<and>
     update_defaults cvt environ p d =
       (case update_loop cvt (filter (\<lambda>kv. fst kv \<noteq> k) (merged_config environ p)) (options p) d of
          (opts1, d1, r) \<Rightarrow> (p\<lparr>options := opts1\<rparr>, d1, r)) \<and>
     fst ` set (fst (snd (update_defaults cvt environ p d))) \<subseteq> fst ` set d \<union> dest ` set (options p)"
proof -
  have rel: "list_all2 nargs_set (options p) (options p)"
    by (simp add: list_all2_refl nargs_set_refl)
  have a: "update_step cvt (k, v) (options p) d = (options p, d, None)"
    using assms by (simp add: update_step_unknown)
  have b: "update_loop cvt (merged_config environ p) (options p) d =
      update_loop cvt (filter (\<lambda>kv. fst kv \<noteq> k) (merged_config environ p)) (options p) d"
    by (rule update_loop_drop_unknown[OF rel assms])
  let ?ws = "map (write_of cvt (options p)) (merged_config environ p)"
  have "snd (update_loop cvt (merged_config environ p) (options p) d) = apply_writes ?ws d"
    by (rule update_loop_writes[OF rel])
  then have eq: "fst (snd (update_defaults cvt environ p d)) = fst (apply_writes ?ws d)"
    by (simp add: update_defaults_snd)
  have sub: "{dn. \<exists>x. Some (dn, x) \<in> set ?ws} \<subseteq> dest ` set (options p)"
  proof
    fix dn assume "dn \<in> {dn. \<exists>x. Some (dn, x) \<in> set ?ws}"
    then obtain x kv where "Some (dn, x) = write_of cvt (options p) kv" by auto
    then have "write_of cvt (options p) kv = Some (dn, x)" by simp
    then obtain i option where "get_option (options p) (fst kv) = Some (i, option)" "dest option = dn"
      using write_of_dest by blast
    then show "dn \<in> dest ` set (options p)" using get_option_Some[of "options p" "fst kv" i option]
      by (metis imageI nth_mem)
  qed
  have k: "fst ` set (fst (apply_writes ?ws d)) \<subseteq> fst ` set d \<union> {dn. \<exists>x. Some (dn, x) \<in> set ?ws}"
    by (rule apply_writes_keys)
  have c: "fst ` set (fst (snd (update_defaults cvt environ p d)))
       \<subseteq> fst ` set d \<union> dest ` set (options p)"
    unfolding eq using k sub by blast
  show ?thesis using a b c by (simp add: update_defaults_def)
qed

text \<open>
  Witness for C3: the key \<^verbatim>\<open>foo-bar = 1\<close> in the \<^verbatim>\<open>[global]\<close> section of the \<^verbatim>\<open>install\<close>
  parser.
\<close>

theorem unknown_key_ignored_witness:
  "get_option (options install_parser) ''--foo-bar'' = None \<and>
   (''--foo-bar'', ''1'') \<in> set (merged_config [] install_parser) \<and>
   snd (snd (update_defaults cvt_digits [] install_parser (defaults install_parser))) = None \<and>
   fst ` set (fst (snd (update_defaults cvt_digits [] install_parser (defaults install_parser))))
     \<subseteq> fst ` set (defaults install_parser) \<union> dest ` set (options install_parser)"
proof -
  have h: "get_option (options install_parser) ''--foo-bar'' = None" by (simp add: ev)
  have m: "(''--foo-bar'', ''1'') \<in> set (merged_config [] install_parser)" by (simp add: ev)
  have ok: "snd (snd (update_defaults cvt_digits [] install_parser (defaults install_parser))) = None"
    by (simp add: ev)
  show ?thesis
    using h m ok
      unknown_key_ignored[OF h, of cvt_digits "''1''" "defaults install_parser" "[]"]
    by blast
qed

subsection \<open>C4: empty values\<close>

text \<open>
  Counterexample to C4: \<^verbatim>\<open>timeout = 20\<close> in \<^verbatim>\<open>[global]\<close>. With \<^verbatim>\<open>PIP_TIMEOUT\<close> set to the
  empty string the resolved value is the default 15; without the variable the lower
  tier gives 20.0. The empty value does not act as if absent.
\<close>

theorem empty_env_value_masks_file:
  "map_of (fst (snd (update_defaults cvt_digits [(''PIP_TIMEOUT'', [])]
     (create_main_parser [(''global'', [(''timeout'', ''20'')])] ''pip.log'')
     (defaults (create_main_parser [] ''pip.log'' :: rat parser))))) (Some ''timeout'')
     = Some (PInt 15) \<and>
   map_of (fst (snd (update_defaults cvt_digits []
     (create_main_parser [(''global'', [(''timeout'', ''20'')])] ''pip.log'')
     (defaults (create_main_parser [] ''pip.log'' :: rat parser))))) (Some ''timeout'')
     = Some (PFloat 20)"
  by (simp add: ev)

text \<open>
  C4, amended. When the value that wins the precedence order for a key is the empty string,
  the key is skipped: \<^verbatim>\<open>update_defaults\<close> does exactly what it does on the configuration
  without that key, whatever the lower-precedence sources supply for it. If moreover no
  other key of the configuration reaches an option with the same \<^verbatim>\<open>dest\<close>, the option's
  \<^verbatim>\<open>dest\<close> keeps the binding of the defaults that were passed in, however the run ends.
\<close>

theorem empty_value_keeps_default:
  assumes val: "highest_precedence environ p k = Some []"
  shows "update_defaults cvt environ p d =
       (case update_loop cvt (filter (\<lambda>kv. fst kv \<noteq> k) (merged_config environ p))
               (options p) d of
          (opts1, d1, r) \<Rightarrow> (p\<lparr>options := opts1\<rparr>, d1, r)) \<and>
     (\<forall>i option.
        get_option (options p) k = Some (i, option) \<and>
        (\<forall>k' j option'. k' \<in> fst ` set (merged_config environ p) \<and> k' \<noteq> k \<and>
           get_option (options p) k' = Some (j, option') \<longrightarrow> dest option' \<noteq> dest option)
        \<longrightarrow> map_of (fst (snd (update_defaults cvt environ p d))) (dest option) =
            map_of d (dest option))"
proof -
  let ?items = "merged_config environ p"
  let ?r = "update_defaults cvt environ p d"
  have look: "map_of ?items k = Some []" using val by (simp add: merged_config_lookup)
  have empty: "\<forall>kv \<in> set ?items. fst kv = k \<longrightarrow> snd kv = []"
  proof (intro ballI impI)
    fix kv assume kv: "kv \<in> set ?items" "fst kv = k"
    have "map_of ?items (fst kv) = Some (snd kv)"
      using kv(1) merged_config_distinct[of environ p]
        map_of_is_SomeI[of ?items "fst kv" "snd kv"] by simp
    then show "snd kv = []" using look kv(2) by simp
  qed
  have a: "update_loop cvt ?items (options p) d =
      update_loop cvt (filter (\<lambda>kv. fst kv \<noteq> k) ?items) (options p) d"
    by (rule update_loop_drop_empty[OF empty])
  have loop: "update_loop cvt ?items (options p) d =
      (options (fst ?r), fst (snd ?r), snd (snd ?r))"
    by (simp add: update_defaults_def case_prod_beta)
  have b: "map_of (fst (snd ?r)) (dest option) = map_of d (dest option)"
    if "get_option (options p) k = Some (i, option)"
      and "\<forall>k' j option'. k' \<in> fst ` set ?items \<and> k' \<noteq> k \<and>
           get_option (options p) k' = Some (j, option') \<longrightarrow> dest option' \<noteq> dest option"
    for i option
    by (rule update_loop_empty[OF loop look merged_config_distinct that])
  show ?thesis using a b by (simp add: update_defaults_def)
qed

text \<open>
  Witness for C4: the \<^verbatim>\<open>install\<close> parser, whose file sets \<^verbatim>\<open>timeout\<close> in both sections,
  with \<^verbatim>\<open>PIP_TIMEOUT\<close> empty.
\<close>

theorem empty_value_keeps_default_witness:
  "highest_precedence [(''PIP_TIMEOUT'', [])] install_parser ''--timeout'' = Some [] \<and>
   map_of (fst (snd (update_defaults cvt_digits [(''PIP_TIMEOUT'', [])] install_parser
     (defaults install_parser)))) (Some ''timeout'') = Some (PInt 15)"
proof -
  let ?env = "[(''PIP_TIMEOUT'', [])]"
  let ?r = "update_defaults cvt_digits ?env install_parser (defaults install_parser)"
  have hp: "highest_precedence ?env install_parser ''--timeout'' = Some []"
    by (simp add: ev)
  obtain i where opt: "get_option (options install_parser) ''--timeout'' = Some (i, opt_timeout)"
    by (simp add: ev)
  have others: "\<forall>k' j option'. k' \<in> fst ` set (merged_config ?env install_parser) \<and>
         k' \<noteq> ''--timeout'' \<and> get_option (options install_parser) k' = Some (j, option')
         \<longrightarrow> dest option' \<noteq> dest (opt_timeout :: rat optn)"
    by (auto simp: ev)
  have "map_of (fst (snd ?r)) (dest (opt_timeout :: rat optn)) =
        map_of (defaults install_parser) (dest (opt_timeout :: rat optn))"
    using empty_value_keeps_default[OF hp, of cvt_digits "defaults install_parser"] opt others
    by blast
  moreover have "dest (opt_timeout :: rat optn) = Some ''timeout''" by (simp add: ev)
  moreover have "map_of (defaults install_parser) (Some ''timeout'') = Some (PInt 15)"
    by (simp add: ev)
  ultimately show ?thesis using hp by simp
qed

text \<open>
  Where another key reaches the same option, that key still writes: with \<^verbatim>\<open>PIP_TIMEOUT\<close>
  empty and \<^verbatim>\<open>default-timeout = 7\<close> in the file the resolved value is 7.0.
\<close>

lemma empty_value_and_alias:
  "map_of (fst (snd (update_defaults cvt_digits [(''PIP_TIMEOUT'', [])] alias_parser
     (defaults alias_parser)))) (Some ''timeout'') = Some (PFloat 7)"
  by (simp add: ev)

subsection \<open>C5: key normalization\<close>

text \<open>
  C5. Normalizing a key twice gives what normalizing it once gives, for the key and for
  the dict that \<^verbatim>\<open>normalize_keys\<close> builds.
\<close>

theorem normalize_idempotent:
  "normalize_key (normalize_key k) = normalize_key k \<and>
   normalize_keys (normalize_keys items) = normalize_keys items"
  by (simp add: normalize_key_idem normalize_keys_idem)

subsection \<open>C6: truth values\<close>

text \<open>
  Counterexample to C6: \<^verbatim>\<open>TRUE\<close> is none of the twelve words, yet it is converted to 1 and
  is no error, since \<^verbatim>\<open>strtobool\<close> lower-cases its argument.
\<close>

theorem upper_case_truth_value:
  "''TRUE'' \<notin> set [''y'', ''yes'', ''t'', ''true'', ''on'', ''1'',
                   ''n'', ''no'', ''f'', ''false'', ''off'', ''0''] \<and>
   snd (coerce cvt_digits opt_no_input ''--no-input'' ''TRUE'') = Inr (PInt 1)"
  by (simp add: ev)

text \<open>
  C6, amended. For an option with the action \<^verbatim>\<open>store_true\<close>, \<^verbatim>\<open>store_false\<close> or \<^verbatim>\<open>count\<close>
  (such an option has no type), the conversion gives 1 when the lower-cased value is one
  of \<^verbatim>\<open>y, yes, t, true, on, 1\<close>, 0 when it is one of \<^verbatim>\<open>n, no, f, false, off, 0\<close>, and raises
  \<^verbatim>\<open>ValueError\<close> for every other value.
\<close>

theorem truth_value_coercion:
  assumes "action option \<in> {StoreTrue, StoreFalse, Count}" and "otype option = None"
  shows "snd (coerce cvt option key val) =
    (if lower val \<in> set [''y'', ''yes'', ''t'', ''true'', ''on'', ''1''] then Inr (PInt 1)
     else if lower val \<in> set [''n'', ''no'', ''f'', ''false'', ''off'', ''0''] then Inr (PInt 0)
     else Inl (ValueError (lower val)))"
  using assms
  by (auto simp: coerce_def strtobool_def convert_value_def check_value_def Let_def)

text \<open>Witness for C6: \<^verbatim>\<open>--verbose\<close>, a counter, with the values \<^verbatim>\<open>Yes\<close>, \<^verbatim>\<open>off\<close> and \<^verbatim>\<open>maybe\<close>.\<close>

theorem truth_value_coercion_witness:
  "action (opt_verbose :: rat optn) \<in> {StoreTrue, StoreFalse, Count} \<and>
   otype (opt_verbose :: rat optn) = None \<and>
   snd (coerce cvt_digits opt_verbose ''--verbose'' ''Yes'') = Inr (PInt 1) \<and>
   snd (coerce cvt_digits opt_verbose ''--verbose'' ''off'') = Inr (PInt 0) \<and>
   snd (coerce cvt_digits opt_verbose ''--verbose'' ''maybe'') = Inl (ValueError ''maybe'')"
proof -
  have a: "action (opt_verbose :: rat optn) \<in> {StoreTrue, StoreFalse, Count}"
    and t: "otype (opt_verbose :: rat optn) = None"
    by (simp_all add: opt_verbose_def flag_def)
  show ?thesis
    using a t
      truth_value_coercion[OF a t, of cvt_digits "''--verbose''" "''Yes''"]
      truth_value_coercion[OF a t, of cvt_digits "''--verbose''" "''off''"]
      truth_value_coercion[OF a t, of cvt_digits "''--verbose''" "''maybe''"]
    by (simp add: lower_def lower_char_def)
qed

subsection \<open>C7: conversion errors\<close>

text \<open>
  An invalid number and an invalid choice end in the printed message and
  \<^verbatim>\<open>sys.exit(3)\<close>.
\<close>

lemma invalid_float_exits_3:
  "snd (snd (update_defaults cvt_digits [(''PIP_TIMEOUT'', ''soon'')]
     (create_main_parser [] ''pip.log'') [])) =
   Some (SystemExit (''--timeout'', InvalidValue TFloat (PStr ''soon'')) 3)"
  by (simp add: ev)

lemma invalid_choice_exits_3:
  "snd (snd (update_defaults cvt_digits [(''PIP_EXISTS_ACTION'', ''x'')]
     (create_main_parser [] ''pip.log'') [])) =
   Some (SystemExit (''--exists-action'',
     InvalidChoice (PList [PStr ''x'']) [''s'', ''i'', ''w'', ''b'']) 3)"
  by (simp add: ev)

text \<open>
  For the option \<^verbatim>\<open>--exists-action\<close> an allowed choice ends in the same way: the value is
  split into a list, and the list is none of the choices.
\<close>

lemma allowed_choice_exits_3:
  "snd (snd (update_defaults cvt_digits [(''PIP_EXISTS_ACTION'', ''s'')]
     (create_main_parser [] ''pip.log'') [])) =
   Some (SystemExit (''--exists-action'',
     InvalidChoice (PList [PStr ''s'']) [''s'', ''i'', ''w'', ''b'']) 3)"
  by (simp add: ev)

text \<open>
  C7 at \<^verbatim>\<open>PIP_NO_INPUT=maybe\<close>: the invalid truth value leaves \<^verbatim>\<open>update_defaults\<close> as an
  uncaught \<^verbatim>\<open>ValueError\<close>; nothing is printed and \<^verbatim>\<open>sys.exit(3)\<close> is not reached.
\<close>

theorem invalid_truth_value_uncaught:
  "snd (snd (update_defaults cvt_digits [(''PIP_NO_INPUT'', ''maybe'')]
     (create_main_parser [] ''pip.log'') [])) = Some (ValueError ''maybe'')"
  by (simp add: ev)

subsection \<open>C8: what happens to the option descriptors\<close>

text \<open>
  Counterexample to C8: with \<^verbatim>\<open>PIP_NO_INPUT=true\<close> the option \<^verbatim>\<open>--no-input\<close>, built with
  \<^verbatim>\<open>nargs\<close> \<^verbatim>\<open>None\<close>, has \<^verbatim>\<open>nargs\<close> 1 after \<^verbatim>\<open>update_defaults\<close>.
\<close>

theorem nargs_of_flag_written:
  "map nargs (options (create_main_parser [] ''pip.log'' :: rat parser)) ! 3 = None \<and>
   map nargs (options (fst (update_defaults cvt_digits [(''PIP_NO_INPUT'', ''true'')]
     (create_main_parser [] ''pip.log'') []))) ! 3 = Some 1"
  by (simp add: ev)

text \<open>
  C8, amended. Of an option, \<^verbatim>\<open>update_defaults\<close> changes nothing but \<^verbatim>\<open>nargs\<close>, which it sets
  to 1, and never for an option with the action \<^verbatim>\<open>append\<close>; the number and order of the
  options stay. An option that no key of the configuration with a non-empty value reaches
  is left exactly as it was. When the run raises nothing, every option that such a key
  reaches and whose action is not \<^verbatim>\<open>append\<close> has \<^verbatim>\<open>nargs\<close> 1 afterwards and is otherwise as
  before. \<^verbatim>\<open>get_default_values\<close> does to the options what its call of \<^verbatim>\<open>update_defaults\<close> does,
  and nothing when \<^verbatim>\<open>process_default_values\<close> is off.
\<close>

theorem only_nargs_written:
  assumes run: "update_defaults cvt environ p d = (p1, d1, r)"
  shows "list_all2 nargs_set (options p) (options p1) \<and>
     (\<forall>i. (\<forall>kv \<in> set (merged_config environ p). snd kv \<noteq> [] \<longrightarrow>
              (\<forall>x. get_option (options p) (fst kv) \<noteq> Some (i, x)))
          \<longrightarrow> options p1 ! i = options p ! i) \<and>
     (r = None \<longrightarrow>
        (\<forall>k v i x. (k, v) \<in> set (merged_config environ p) \<and> v \<noteq> [] \<and>
            get_option (options p) k = Some (i, x) \<and> action x \<noteq> Append
          \<longrightarrow> options p1 ! i = x\<lparr>nargs := Some 1\<rparr>)) \<and>
     options (fst (get_default_values cvt environ p)) =
       (if process_default_values p
        then options (fst (update_defaults cvt environ p (defaults p))) else options p)"
proof -
  let ?items = "merged_config environ p"
  have rel: "list_all2 nargs_set (options p) (options p)"
    by (simp add: list_all2_refl nargs_set_refl)
  have loop: "update_loop cvt ?items (options p) d = (options p1, d1, r)"
    using run by (auto simp: update_defaults_def split: prod.splits)
  have a: "list_all2 nargs_set (options p) (options p1)"
    using update_loop_rel[OF rel, of cvt ?items d] loop by simp
  have b: "options p1 ! i = options p ! i"
    if "\<forall>kv \<in> set ?items. snd kv \<noteq> [] \<longrightarrow> (\<forall>x. get_option (options p) (fst kv) \<noteq> Some (i, x))"
    for i
    using update_loop_unreached[OF rel that, of cvt d] loop by simp
  have c: "options p1 ! i = x\<lparr>nargs := Some 1\<rparr>"
    if "r = None" "(k, v) \<in> set ?items" "v \<noteq> []"
      "get_option (options p) k = Some (i, x)" "action x \<noteq> Append"
    for k v i x
    using update_loop_reached[OF rel _ that(2,3,4,5), of cvt d "options p1" d1] loop that(1)
    by simp
  have e: "options (fst (get_default_values cvt environ p)) =
       (if process_default_values p
        then options (fst (update_defaults cvt environ p (defaults p))) else options p)"
    by (auto simp: get_default_values_def split: prod.splits option.splits sum.splits)
  show ?thesis using a b c e by blast
qed

text \<open>
  Witness for C8: the run of the counterexample. \<^verbatim>\<open>--no-input\<close> is as before but for
  \<^verbatim>\<open>nargs\<close>, and \<^verbatim>\<open>--timeout\<close>, which no key reaches, is as before.
\<close>

theorem only_nargs_written_witness:
  "snd (snd (update_defaults cvt_digits [(''PIP_NO_INPUT'', ''true'')]
     (create_main_parser [] ''pip.log'') [])) = None \<and>
   options (fst (update_defaults cvt_digits [(''PIP_NO_INPUT'', ''true'')]
     (create_main_parser [] ''pip.log'') [])) ! 3 = opt_no_input\<lparr>nargs := Some 1\<rparr> \<and>
   options (fst (update_defaults cvt_digits [(''PIP_NO_INPUT'', ''true'')]
     (create_main_parser [] ''pip.log'') [])) ! 12 = opt_timeout"
proof -
  let ?env = "[(''PIP_NO_INPUT'', ''true'')]"
  let ?p = "create_main_parser [] ''pip.log'' :: rat parser"
  let ?r = "update_defaults cvt_digits ?env ?p []"
  have ok: "snd (snd ?r) = None" by (simp add: ev)
  then have run: "?r = (fst ?r, fst (snd ?r), None)" by (metis prod.collapse)
  note t = only_nargs_written[OF run]
  have m: "(''--no-input'', ''true'') \<in> set (merged_config ?env ?p)" by (simp add: ev)
  have g: "get_option (options ?p) ''--no-input'' = Some (3, opt_no_input)"
    by (simp add: ev eval_nat_numeral)
  have ac: "action (opt_no_input :: rat optn) \<noteq> Append" by (simp add: ev)
  have a: "options (fst ?r) ! 3 = opt_no_input\<lparr>nargs := Some 1\<rparr>"
    using t m g ac by blast
  have un: "\<forall>kv \<in> set (merged_config ?env ?p). snd kv \<noteq> [] \<longrightarrow>
      (\<forall>x. get_option (options ?p) (fst kv) \<noteq> Some (12, x))"
    by (simp add: ev eval_nat_numeral)
  have "options (fst ?r) ! 12 = options ?p ! 12" using t un by blast
  moreover have "options ?p ! 12 = opt_timeout" by (simp add: ev)
  ultimately show ?thesis using ok a by simp
qed

text \<open>
  A run that raises leaves the options of the keys it has not come to as they were: with
  \<^verbatim>\<open>PIP_NO_INPUT=maybe\<close> before \<^verbatim>\<open>PIP_REQUIRE_VENV=yes\<close>, \<^verbatim>\<open>--require-virtualenv\<close> keeps its
  \<^verbatim>\<open>nargs\<close>, and \<^verbatim>\<open>--no-input\<close>, where the run stops, has \<^verbatim>\<open>nargs\<close> 1.
\<close>

lemma abort_leaves_later_options:
  "map nargs (options (fst (update_defaults cvt_digits
     [(''PIP_NO_INPUT'', ''maybe''), (''PIP_REQUIRE_VENV'', ''yes'')]
     (create_main_parser [] ''pip.log'') []))) ! 0 = None \<and>
   map nargs (options (fst (update_defaults cvt_digits
     [(''PIP_NO_INPUT'', ''maybe''), (''PIP_REQUIRE_VENV'', ''yes'')]
     (create_main_parser [] ''pip.log'') []))) ! 3 = Some 1"
  by (simp add: ev)

subsection \<open>C9: environment variables\<close>

text \<open>A variable whose name holds the prefix once gives the key the claim describes.\<close>

lemma environ_timeout:
  "get_environ_vars [(''HOME'', ''/root''), (''PIP_TIMEOUT'', ''5 '')] ''PIP_'' =
   [(''timeout'', ''5 '')]"
  by (simp add: ev)

text \<open>
  C9 at \<^verbatim>\<open>PIP_DISABLE_PIP_VERSION_CHECK=1\<close>: \<^verbatim>\<open>key.replace(prefix, '')\<close> removes every
  occurrence of the prefix, so the key is \<^verbatim>\<open>disable_version_check\<close> and not the name
  without its prefix, \<^verbatim>\<open>disable_pip_version_check\<close>.
\<close>

theorem environ_prefix_removed_everywhere:
  "get_environ_vars [(''PIP_DISABLE_PIP_VERSION_CHECK'', ''1'')] ''PIP_'' =
   [(''disable_version_check'', ''1'')]"
  by (simp add: ev)

subsection \<open>C10: the parser's own defaults\<close>

text \<open>
  C10. \<^verbatim>\<open>get_default_values\<close> leaves the \<^verbatim>\<open>defaults\<close> of the parser as they were, whether
  it returns or raises.
\<close>

theorem get_default_values_keeps_defaults:
  "defaults (fst (get_default_values cvt environ p)) = defaults p"
  by (auto simp: get_default_values_def update_defaults_def
      split: prod.splits option.splits sum.splits)

text \<open>
  \<^verbatim>\<open>expand_default\<close> of the help formatter, by contrast, writes the parser's own dict.
\<close>

lemma expand_default_writes_defaults:
  "map_of (defaults (fst (expand_default cvt_digits [(''PIP_TIMEOUT'', ''5'')]
     (create_main_parser [] ''pip.log'')))) (Some ''timeout'') = Some (PFloat 5)"
  by (simp add: ev expand_default_def case_prod_beta)

end
